theory Spec2Isabelle
  imports Main "HOL-Library.Word"
begin

unbundle bit_operations_syntax

section \<open>Software TWI transport (lib/hal/avr/twi\_soft)\<close>

subsection \<open>Enumerations and configuration constants\<close>

text \<open>
  Modelled from the spec: \<^verbatim>\<open>common/enums/TWI_enums.h\<close> is not among the sources. The
  spec names the bus statuses (Idle/None, Ack-failure, Arbitration-lost, Start-failure,
  General-error) and the two directions; the constructor names are the ones
  \<^verbatim>\<open>twi_soft.c\<close> and \<^verbatim>\<open>twi.c\<close> use.
\<close>

datatype TWI_Error = TWI_None | TWI_Ack | TWI_Arbitration | TWI_Start | TWI_General

datatype TWI_Operation = TWI_Write | TWI_Read

text \<open>
  Modelled from the spec: the integer value of the direction enum (missing
  \<^verbatim>\<open>TWI_enums.h\<close>). The spec encodes the direction into the low bit of the address
  byte and has address \<open>0x3C\<close> with Write give the wire byte \<open>0x78\<close>, so Write is 0 and
  Read is 1.
\<close>

fun TWI_Operation_value :: "TWI_Operation \<Rightarrow> 8 word" where
  "TWI_Operation_value TWI_Write = 0"
| "TWI_Operation_value TWI_Read = 1"

definition CHAR_BIT :: nat where
  "CHAR_BIT = 8"

text \<open>\<^verbatim>\<open>TWI_SOFT_SCL\<close> is \<^verbatim>\<open>PINB0\<close> and \<^verbatim>\<open>TWI_SOFT_SDA\<close> is \<^verbatim>\<open>PINB1\<close>.\<close>

definition TWI_SOFT_SCL :: nat where
  "TWI_SOFT_SCL = 0"

definition TWI_SOFT_SDA :: nat where
  "TWI_SOFT_SDA = 1"


definition TWI_SOFT_STATUS_TRANSMIT :: "8 word" where
  "TWI_SOFT_STATUS_TRANSMIT = 0x01"


subsection \<open>The port, the input register and the trace of line actions\<close>

text \<open>
  Every line macro, every \<^verbatim>\<open>_delay_us(TWI_SOFT_CLOCK_PULSE_US)\<close> and every read of the
  input register leaves one event in the trace, in program order.
\<close>

datatype line_event =
    Scl_low | Scl_high | Sda_low | Sda_high
  | Delay
  | Sample "8 word"

text \<open>
  The registers of port B, the status variable of \<^verbatim>\<open>twi_soft.c\<close>, and the environment:
  \<open>PINB hw n\<close> is the value the input register delivers at its \<open>n\<close>-th read (the peer
  devices decide it), \<open>reads\<close> counts the reads made so far. \<open>levels\<close> runs along the
  trace: its \<open>k\<close>-th entry is what the two pins of the master put on the clock and on
  the data line right after the \<open>k\<close>-th event.
\<close>

record avr =
  PORTB :: "8 word"
  DDRB :: "8 word"
  twi_soft_bus_status :: "8 word"
  PINB :: "nat \<Rightarrow> 8 word"
  reads :: nat
  trace :: "line_event list"
  levels :: "(bool \<times> bool) list"

text \<open>
  What pin \<open>n\<close> of the port puts on its line, from the two registers: \<open>False\<close> (low)
  when the pin is an output with its port bit clear; \<open>True\<close> (high) when the pin is an
  input, which leaves the line to the pull-up and to the peers, or an output with its
  port bit set.
\<close>

definition pin_level :: "avr \<Rightarrow> nat \<Rightarrow> bool" where
  "pin_level hw n \<longleftrightarrow> \<not> bit (DDRB hw) n \<or> bit (PORTB hw) n"

definition emit :: "line_event \<Rightarrow> avr \<Rightarrow> avr" where
  "emit e hw =
     hw\<lparr>trace := trace hw @ [e],
        levels := levels hw @ [(pin_level hw TWI_SOFT_SCL, pin_level hw TWI_SOFT_SDA)]\<rparr>"

text \<open>The macros of \<^verbatim>\<open>twi_soft.h\<close>, in the variant without \<^verbatim>\<open>TWI_SOFT_PULLUP_ENABLE\<close>
  (the default), written as they are: three of them clear the SCL bit of the port.\<close>

definition SCL_LOW :: "avr \<Rightarrow> avr" where
  "SCL_LOW hw =
     emit Scl_low
       (hw\<lparr>PORTB := PORTB hw AND NOT (push_bit TWI_SOFT_SCL 1),
           DDRB := DDRB hw OR push_bit TWI_SOFT_SCL 1\<rparr>)"

definition SDA_LOW :: "avr \<Rightarrow> avr" where
  "SDA_LOW hw =
     emit Sda_low
       (hw\<lparr>PORTB := PORTB hw AND NOT (push_bit TWI_SOFT_SCL 1),
           DDRB := DDRB hw OR push_bit TWI_SOFT_SDA 1\<rparr>)"

definition SDA_HIGH :: "avr \<Rightarrow> avr" where
  "SDA_HIGH hw =
     emit Sda_high
       (hw\<lparr>DDRB := DDRB hw AND NOT (push_bit TWI_SOFT_SDA 1),
           PORTB := PORTB hw AND NOT (push_bit TWI_SOFT_SCL 1)\<rparr>)"

definition SCL_HIGH :: "avr \<Rightarrow> avr" where
  "SCL_HIGH hw =
     emit Scl_high
       (hw\<lparr>DDRB := DDRB hw AND NOT (push_bit TWI_SOFT_SCL 1),
           PORTB := PORTB hw AND NOT (push_bit TWI_SOFT_SCL 1)\<rparr>)"

definition delay_us :: "avr \<Rightarrow> avr" where
  "delay_us hw = emit Delay hw"

text \<open>One read of \<^verbatim>\<open>TWI_SOFT_PIN\<close>: the value read and the state after the read.\<close>

definition read_PIN :: "avr \<Rightarrow> 8 word \<times> avr" where
  "read_PIN hw =
     (let v = PINB hw (reads hw)
      in (v, emit (Sample v) (hw\<lparr>reads := Suc (reads hw)\<rparr>)))"

text \<open>
  \<^verbatim>\<open>while(!(TWI_SOFT_PIN & (1<<TWI_SOFT_SCL))) { asm volatile("NOP"); }\<close>
  The loop has no bound: a peer that holds the clock low for ever keeps it running, and
  the result is then \<open>None\<close>.
\<close>

partial_function (option) clock_stretching :: "avr \<Rightarrow> avr option" where
  "clock_stretching hw =
     (case read_PIN hw of (v, hw') \<Rightarrow>
        if \<not> bit v TWI_SOFT_SCL then clock_stretching hw' else Some hw')"

subsection \<open>twi\_soft\_init, twi\_soft\_disable, twi\_soft\_status\<close>



definition twi_soft_status :: "avr \<Rightarrow> 8 word" where
  "twi_soft_status hw = twi_soft_bus_status hw"

subsection \<open>twi\_soft\_start and twi\_soft\_stop\<close>

text \<open>\<^verbatim>\<open>TWI_SOFT_BLOCK_IE\<close> is not defined by default: no \<^verbatim>\<open>cli()\<close>/\<^verbatim>\<open>sei()\<close>.\<close>

definition twi_soft_start :: "avr \<Rightarrow> TWI_Error \<times> avr" where
  "twi_soft_start hw0 =
     (let hw = hw0\<lparr>twi_soft_bus_status :=
                      twi_soft_bus_status hw0 OR TWI_SOFT_STATUS_TRANSMIT\<rparr>;
          hw = SCL_HIGH hw;
          hw = delay_us hw;
          hw = SDA_LOW hw;
          hw = delay_us hw;
          hw = SCL_LOW hw
      in (TWI_None, hw))"

definition twi_soft_stop :: "avr \<Rightarrow> avr" where
  "twi_soft_stop hw0 =
     (let hw = SCL_LOW hw0;
          hw = SDA_LOW hw;
          hw = delay_us hw;
          hw = SCL_HIGH hw;
          hw = delay_us hw;
          hw = SDA_HIGH hw;
          hw = delay_us hw
      in hw\<lparr>twi_soft_bus_status :=
               twi_soft_bus_status hw AND NOT TWI_SOFT_STATUS_TRANSMIT\<rparr>)"

subsection \<open>twi\_soft\_set and twi\_soft\_address\<close>

text \<open>
  The condition \<^verbatim>\<open>(temp == 1) && (!(TWI_SOFT_PIN & (1<<TWI_SOFT_SDA)))\<close>: the input
  register is read only when the left operand holds.
\<close>

definition arbitration_check :: "nat \<Rightarrow> avr \<Rightarrow> bool \<times> avr" where
  "arbitration_check temp hw =
     (if temp = 1
      then (case read_PIN hw of (v, hw') \<Rightarrow> (\<not> bit v TWI_SOFT_SDA, hw'))
      else (False, hw))"

text \<open>
  The body of the \<^verbatim>\<open>for\<close> loop of \<^verbatim>\<open>twi_soft_set\<close> for the counter value \<open>i\<close>.
  \<open>None\<close>: the clock-stretching loop never ends. \<open>Some (Some e, hw)\<close>: the body executed
  \<^verbatim>\<open>return e\<close>. \<open>Some (None, hw)\<close>: the body reached its end. The operand of
  \<^verbatim>\<open>(data<<i) & 0x80\<close> is promoted to \<^verbatim>\<open>int\<close>, so the shift loses no bit.
\<close>

definition twi_soft_set_bit :: "8 word \<Rightarrow> nat \<Rightarrow> avr \<Rightarrow> (TWI_Error option \<times> avr) option" where
  "twi_soft_set_bit data i hw0 =
     (let hw = SCL_LOW hw0;
          (temp, hw) = (if push_bit i (uint data) AND 0x80 \<noteq> 0
                        then (1, SDA_HIGH hw)
                        else (0, SDA_LOW hw));
          hw = delay_us hw;
          (lost, hw) = arbitration_check temp hw
      in if lost then Some (Some TWI_Arbitration, hw)
         else (case clock_stretching (SCL_HIGH hw) of
                 None \<Rightarrow> None
               | Some hw \<Rightarrow> Some (None, delay_us hw)))"

text \<open>The statements of \<^verbatim>\<open>twi_soft_set\<close> after the loop (the acknowledge bit).\<close>

definition twi_soft_set_ack :: "avr \<Rightarrow> TWI_Error \<times> avr" where
  "twi_soft_set_ack hw0 =
     (let hw = SCL_LOW hw0;
          hw = SDA_HIGH hw;
          hw = delay_us hw;
          (v, hw) = read_PIN hw;
          temp = (if \<not> bit v TWI_SOFT_SDA then TWI_None else TWI_Ack);
          hw = SCL_HIGH hw;
          hw = delay_us hw
      in (temp, hw))"

text \<open>\<^verbatim>\<open>for (unsigned char i=0; i < CHAR_BIT; i++) { ... }\<close> from counter value \<open>i\<close> on,
  followed by the acknowledge phase.\<close>

function twi_soft_set_from :: "8 word \<Rightarrow> nat \<Rightarrow> avr \<Rightarrow> (TWI_Error \<times> avr) option" where
  "twi_soft_set_from data i hw =
     (if i < CHAR_BIT
      then (case twi_soft_set_bit data i hw of
              None \<Rightarrow> None
            | Some (Some e, hw') \<Rightarrow> Some (e, hw')
            | Some (None, hw') \<Rightarrow> twi_soft_set_from data (Suc i) hw')
      else Some (twi_soft_set_ack hw))"
  by pat_completeness auto
termination
  by (relation "measure (\<lambda>(data, i, hw). CHAR_BIT - i)") auto

declare twi_soft_set_from.simps [simp del]

definition twi_soft_set :: "8 word \<Rightarrow> avr \<Rightarrow> (TWI_Error \<times> avr) option" where
  "twi_soft_set data hw = twi_soft_set_from data 0 hw"

definition twi_soft_address :: "8 word \<Rightarrow> TWI_Operation \<Rightarrow> avr \<Rightarrow> (TWI_Error \<times> avr) option" where
  "twi_soft_address address operation hw =
     (let temp = push_bit 1 address OR (0x01 AND TWI_Operation_value operation)
      in twi_soft_set temp hw)"

section \<open>Display protocol layer (lib/oled/oled.c)\<close>

subsection \<open>Configuration constants of oled.h\<close>

definition OLED_ADDRESS :: "8 word" where
  "OLED_ADDRESS = drop_bit 1 0x78"

definition OLED_CONTROL_COMMAND :: "8 word" where
  "OLED_CONTROL_COMMAND = 0x80"

definition OLED_CONTROL_DATA :: "8 word" where
  "OLED_CONTROL_DATA = 0x40"

definition OLED_PAGE_SIZE :: nat where
  "OLED_PAGE_SIZE = 8"

definition OLED_ROW_SIZE :: nat where
  "OLED_ROW_SIZE = 64"

definition OLED_COLUMN_SIZE :: nat where
  "OLED_COLUMN_SIZE = 128"

definition OLED_CMD_SET_DISPLAY_OFFSET :: "8 word" where
  "OLED_CMD_SET_DISPLAY_OFFSET = 0xD3"

definition OLED_CMD_SET_PAGE_START_ADDRESS :: "8 word" where
  "OLED_CMD_SET_PAGE_START_ADDRESS = 0xB0"

definition OLED_CMD_SET_LOWER_START_COLUMN_ADDRESS :: "8 word" where
  "OLED_CMD_SET_LOWER_START_COLUMN_ADDRESS = 0x00"

definition OLED_CMD_SET_HIGHER_START_COLUMN_ADDRESS :: "8 word" where
  "OLED_CMD_SET_HIGHER_START_COLUMN_ADDRESS = 0x10"

text \<open>The table \<^verbatim>\<open>oled_init_commands\<close>, each entry with the values of its macros.\<close>

definition oled_init_commands :: "8 word list" where
  "oled_init_commands =
     [0xAE OR 0x00,
      0xA8,
      0x3F,
      0xD3,
      0x00,
      0x40 OR 0x00,
      0xA0 OR 0x01,
      0xC0 OR 0x08,
      0xDA,
      0x12 OR 0x02,
      0x81,
      0x7F,
      0xA4 OR 0x00,
      0xA6 OR 0x00,
      0xD5,
      0x80 OR 0x00,
      0x20,
      0x02,
      0x8D,
      0x14,
      0xAE OR 0x01]"

subsection \<open>State of the display layer\<close>

text \<open>
  \<^verbatim>\<open>oled.c\<close> reaches the bus only through calls of the transport
  (\<^verbatim>\<open>twi_soft_*\<close>, or \<^verbatim>\<open>twi_*\<close> without \<^verbatim>\<open>OLED_USE_SOFT_TWI\<close>) and
  drops every status they return. What it does on the bus is therefore the sequence of
  its transport calls with their arguments, which the state records in call order.
  \<^verbatim>\<open>_delay_us(OLED_IDLE_TIME_US)\<close> is no transport call and leaves nothing.
\<close>

datatype twi_call =
    Twi_init
  | Twi_disable
  | Twi_start
  | Twi_address "8 word" TWI_Operation
  | Twi_set "8 word"
  | Twi_stop

record oled =
  column_current_position :: "8 word"
  page_current_position :: "8 word"
  bus :: "twi_call list"

text \<open>The two globals are zero-initialised; nothing has been sent.\<close>

definition oled_reset :: oled where
  "oled_reset = \<lparr>column_current_position = 0, page_current_position = 0, bus = []\<rparr>"

definition twi :: "twi_call \<Rightarrow> oled \<Rightarrow> oled" where
  "twi c s = s\<lparr>bus := bus s @ [c]\<rparr>"

definition OLED_START :: "TWI_Operation \<Rightarrow> oled \<Rightarrow> oled" where
  "OLED_START MODE s = twi (Twi_address OLED_ADDRESS MODE) (twi Twi_start s)"

definition OLED_STOP :: "oled \<Rightarrow> oled" where
  "OLED_STOP s = twi Twi_stop s"

definition OLED_DATA :: "oled \<Rightarrow> oled" where
  "OLED_DATA s = twi (Twi_set OLED_CONTROL_DATA) s"

subsection \<open>The functions of oled.c\<close>

definition oled_command :: "8 word \<Rightarrow> oled \<Rightarrow> oled" where
  "oled_command command s = twi (Twi_set command) (twi (Twi_set OLED_CONTROL_COMMAND) s)"

definition oled_position :: "8 word \<Rightarrow> 8 word \<Rightarrow> oled \<Rightarrow> oled" where
  "oled_position column page s0 =
     (if unat column < OLED_COLUMN_SIZE \<and> unat page < OLED_PAGE_SIZE
      then
        (let s = s0\<lparr>column_current_position := column\<rparr>;
             s = s\<lparr>page_current_position := page\<rparr>;
             s = OLED_START TWI_Write s;
             s = oled_command (OLED_CMD_SET_PAGE_START_ADDRESS OR (0x07 AND page)) s;
             s = oled_command (OLED_CMD_SET_LOWER_START_COLUMN_ADDRESS OR (0x0F AND column)) s;
             s = oled_command
                   (OLED_CMD_SET_HIGHER_START_COLUMN_ADDRESS OR (0x0F AND drop_bit 4 column)) s
         in OLED_STOP s)
      else s0)"

definition OLED_HOME :: "oled \<Rightarrow> oled" where
  "OLED_HOME s = oled_position 0 0 s"

definition oled_scroll_vertical :: "8 word \<Rightarrow> oled \<Rightarrow> oled" where
  "oled_scroll_vertical scroll s0 =
     (if unat scroll \<ge> OLED_ROW_SIZE then s0
      else
        (let s = OLED_START TWI_Write s0;
             s = oled_command OLED_CMD_SET_DISPLAY_OFFSET s;
             s = oled_command scroll s
         in OLED_STOP s))"

text \<open>
  A pointer argument \<^verbatim>\<open>unsigned char *data\<close> is the memory seen from it: \<open>data k\<close> is
  the byte \<^verbatim>\<open>data[k]\<close>, and \<^verbatim>\<open>data + n\<close> is \<open>\<lambda>k. data (n + k)\<close>.

  \<^verbatim>\<open>for (unsigned char i=column_start; i <= column_stop; i++) twi_soft_set(*(data++));\<close>
  The loop is entered with \<open>column_stop < 128\<close> only, so the 8-bit counter never wraps and is
  a natural number here.
\<close>

function page_segment_loop :: "(nat \<Rightarrow> 8 word) \<Rightarrow> nat \<Rightarrow> nat \<Rightarrow> oled \<Rightarrow> oled" where
  "page_segment_loop data i column_stop s =
     (if i \<le> column_stop
      then page_segment_loop (\<lambda>k. data (Suc k)) (Suc i) column_stop (twi (Twi_set (data 0)) s)
      else s)"
  by pat_completeness auto
termination
  by (relation "measure (\<lambda>(data, i, column_stop, s). Suc column_stop - i)") auto

declare page_segment_loop.simps [simp del]

definition oled_page_segment :: "(nat \<Rightarrow> 8 word) \<Rightarrow> 8 word \<Rightarrow> 8 word \<Rightarrow> 8 word \<Rightarrow> oled \<Rightarrow> oled" where
  "oled_page_segment data column_start column_stop page s0 =
     (if unat page \<ge> OLED_PAGE_SIZE \<or> unat column_stop \<ge> OLED_COLUMN_SIZE
         \<or> column_start \<ge> column_stop
      then s0
      else
        (let s = oled_position column_start page s0;
             s = OLED_START TWI_Write s;
             s = OLED_DATA s;
             s = page_segment_loop data (unat column_start) (unat column_stop) s
         in OLED_STOP s))"

definition oled_page :: "(nat \<Rightarrow> 8 word) \<Rightarrow> 8 word \<Rightarrow> oled \<Rightarrow> oled" where
  "oled_page data page s =
     (if unat page \<ge> OLED_PAGE_SIZE then s
      else oled_page_segment data 0 (of_nat (OLED_COLUMN_SIZE - 1)) page s)"

text \<open>\<^verbatim>\<open>for (unsigned char page=0; page < OLED_PAGE_SIZE; page++)
    oled_page((frame + page * OLED_PAGE_SIZE), page);\<close>\<close>

function oled_frame_loop :: "(nat \<Rightarrow> 8 word) \<Rightarrow> nat \<Rightarrow> oled \<Rightarrow> oled" where
  "oled_frame_loop frame page s =
     (if page < OLED_PAGE_SIZE
      then oled_frame_loop frame (Suc page)
             (oled_page (\<lambda>k. frame (page * OLED_PAGE_SIZE + k)) (of_nat page) s)
      else s)"
  by pat_completeness auto
termination
  by (relation "measure (\<lambda>(frame, page, s). OLED_PAGE_SIZE - page)") auto

declare oled_frame_loop.simps [simp del]

definition oled_frame :: "(nat \<Rightarrow> 8 word) \<Rightarrow> oled \<Rightarrow> oled" where
  "oled_frame frame s = oled_frame_loop frame 0 (OLED_HOME s)"

definition oled_column :: "8 word \<Rightarrow> 8 word \<Rightarrow> 8 word \<Rightarrow> oled \<Rightarrow> oled" where
  "oled_column data column page s0 =
     (if unat page \<ge> OLED_PAGE_SIZE \<or> unat column \<ge> OLED_COLUMN_SIZE then s0
      else
        (let s = oled_position column page s0;
             s = OLED_START TWI_Write s;
             s = OLED_DATA s;
             s = twi (Twi_set data) s
         in OLED_STOP s))"

text \<open>\<^verbatim>\<open>for (unsigned char i=0; i <= column_stop; i++) twi_soft_set(0x00);\<close>\<close>

function clear_page_segment_loop :: "nat \<Rightarrow> nat \<Rightarrow> oled \<Rightarrow> oled" where
  "clear_page_segment_loop i column_stop s =
     (if i \<le> column_stop
      then clear_page_segment_loop (Suc i) column_stop (twi (Twi_set 0x00) s)
      else s)"
  by pat_completeness auto
termination
  by (relation "measure (\<lambda>(i, column_stop, s). Suc column_stop - i)") auto

declare clear_page_segment_loop.simps [simp del]

definition oled_clear_page_segment :: "8 word \<Rightarrow> 8 word \<Rightarrow> 8 word \<Rightarrow> oled \<Rightarrow> oled" where
  "oled_clear_page_segment column_start column_stop page s0 =
     (if unat page \<ge> OLED_PAGE_SIZE \<or> unat column_stop \<ge> OLED_COLUMN_SIZE
         \<or> column_start \<ge> column_stop
      then s0
      else
        (let s = oled_position column_start page s0;
             s = OLED_START TWI_Write s;
             s = OLED_DATA s;
             s = clear_page_segment_loop 0 (unat column_stop) s
         in OLED_STOP s))"

definition oled_clear_page :: "8 word \<Rightarrow> oled \<Rightarrow> oled" where
  "oled_clear_page page s = oled_clear_page_segment 0 (of_nat (OLED_COLUMN_SIZE - 1)) page s"

function oled_clear_loop :: "nat \<Rightarrow> oled \<Rightarrow> oled" where
  "oled_clear_loop page s =
     (if page < OLED_PAGE_SIZE
      then oled_clear_loop (Suc page) (oled_clear_page (of_nat page) s)
      else s)"
  by pat_completeness auto
termination
  by (relation "measure (\<lambda>(page, s). OLED_PAGE_SIZE - page)") auto

declare oled_clear_loop.simps [simp del]

definition oled_clear :: "oled \<Rightarrow> oled" where
  "oled_clear s = OLED_HOME (oled_clear_loop 0 s)"

definition oled_clear_column :: "8 word \<Rightarrow> 8 word \<Rightarrow> oled \<Rightarrow> oled" where
  "oled_clear_column column page s0 =
     (let s = oled_position column page s0;
          s = OLED_START TWI_Write s;
          s = OLED_DATA s;
          s = twi (Twi_set 0x00) s
      in OLED_STOP s)"

definition oled_init :: "oled \<Rightarrow> oled" where
  "oled_init s0 =
     (let s = twi Twi_init s0;
          s = OLED_START TWI_Write s;
          s = fold oled_command oled_init_commands s;
          s = OLED_STOP s
      in oled_clear s)"

definition oled_disable :: "oled \<Rightarrow> oled" where
  "oled_disable s = twi Twi_disable s"

text \<open>The public functions of \<^verbatim>\<open>oled.h\<close> as requests, and a session as a list of them.\<close>

datatype oled_request =
    Init
  | Disable
  | Position "8 word" "8 word"
  | Scroll_vertical "8 word"
  | Frame "nat \<Rightarrow> 8 word"
  | Page "nat \<Rightarrow> 8 word" "8 word"
  | Page_segment "nat \<Rightarrow> 8 word" "8 word" "8 word" "8 word"
  | Column "8 word" "8 word" "8 word"
  | Clear
  | Clear_page "8 word"
  | Clear_page_segment "8 word" "8 word" "8 word"
  | Clear_column "8 word" "8 word"

fun oled_call :: "oled_request \<Rightarrow> oled \<Rightarrow> oled" where
  "oled_call Init s = oled_init s"
| "oled_call Disable s = oled_disable s"
| "oled_call (Position column page) s = oled_position column page s"
| "oled_call (Scroll_vertical scroll) s = oled_scroll_vertical scroll s"
| "oled_call (Frame frame) s = oled_frame frame s"
| "oled_call (Page data page) s = oled_page data page s"
| "oled_call (Page_segment data column_start column_stop page) s =
     oled_page_segment data column_start column_stop page s"
| "oled_call (Column data column page) s = oled_column data column page s"
| "oled_call Clear s = oled_clear s"
| "oled_call (Clear_page page) s = oled_clear_page page s"
| "oled_call (Clear_page_segment column_start column_stop page) s =
     oled_clear_page_segment column_start column_stop page s"
| "oled_call (Clear_column column page) s = oled_clear_column column page s"

definition oled_session :: "oled_request list \<Rightarrow> oled \<Rightarrow> oled" where
  "oled_session rs s = fold oled_call rs s"

section \<open>The display layer on the software transport\<close>



section \<open>Reference forms and sample inputs\<close>

subsection \<open>Bus transactions of the display layer\<close>

text \<open>
  The calls a transaction consists of, written out, to compare the logged calls with.
  \<open>position_commands\<close>: the transaction of one accepted \<^verbatim>\<open>oled_position\<close>.
\<close>

definition position_commands :: "8 word \<Rightarrow> 8 word \<Rightarrow> twi_call list" where
  "position_commands column page =
     [Twi_start, Twi_address 0x3C TWI_Write,
      Twi_set 0x80, Twi_set (0xB0 OR (0x07 AND page)),
      Twi_set 0x80, Twi_set (0x0F AND column),
      Twi_set 0x80, Twi_set (0x10 OR (0x0F AND drop_bit 4 column)),
      Twi_stop]"

text \<open>A transaction with one control byte after the address byte, then the payload.\<close>

definition single_control_transaction :: "8 word \<Rightarrow> 8 word list \<Rightarrow> twi_call list" where
  "single_control_transaction control payload =
     [Twi_start, Twi_address 0x3C TWI_Write, Twi_set control] @ map Twi_set payload @ [Twi_stop]"

text \<open>A transaction in which the command-control byte \<open>0x80\<close> precedes every command.\<close>

definition per_command_transaction :: "8 word list \<Rightarrow> twi_call list" where
  "per_command_transaction commands =
     [Twi_start, Twi_address 0x3C TWI_Write]
     @ concat (map (\<lambda>c. [Twi_set 0x80, Twi_set c]) commands) @ [Twi_stop]"

text \<open>
  What one page of a frame write puts on the bus when page \<open>p\<close> is taken from offset
  \<open>p * stride\<close> of the buffer: the cursor commands and one data transaction of 128 bytes.
\<close>

definition frame_transactions :: "nat \<Rightarrow> (nat \<Rightarrow> 8 word) \<Rightarrow> nat \<Rightarrow> twi_call list" where
  "frame_transactions stride frame page =
     position_commands 0 (of_nat page)
     @ single_control_transaction 0x40 (map (\<lambda>j. frame (page * stride + j)) [0..<128])"

text \<open>The cursor is inside the display: column below 128, page below 8.\<close>

definition cursor_in_bounds :: "oled \<Rightarrow> bool" where
  "cursor_in_bounds s \<longleftrightarrow>
     unat (column_current_position s) < 128 \<and> unat (page_current_position s) < 8"

text \<open>
  The cursor as a pair, a list of \<^verbatim>\<open>oled_position\<close> calls made one after the other, and
  the calls of \<^verbatim>\<open>oled_position\<close> that each public function makes, in the order and
  under the guards of the source (the loops over the eight pages written out).
\<close>

definition cursor :: "oled \<Rightarrow> 8 word \<times> 8 word" where
  "cursor s = (column_current_position s, page_current_position s)"

fun oled_positions :: "(8 word \<times> 8 word) list \<Rightarrow> oled \<Rightarrow> oled" where
  "oled_positions [] s = s"
| "oled_positions ((column, page) # ps) s = oled_positions ps (oled_position column page s)"

definition page_positions :: "(8 word \<times> 8 word) list" where
  "page_positions = [(0, 0), (0, 1), (0, 2), (0, 3), (0, 4), (0, 5), (0, 6), (0, 7)]"

fun position_calls :: "oled_request \<Rightarrow> (8 word \<times> 8 word) list" where
  "position_calls Init = page_positions @ [(0, 0)]"
| "position_calls Disable = []"
| "position_calls (Position column page) = [(column, page)]"
| "position_calls (Scroll_vertical scroll) = []"
| "position_calls (Frame frame) = (0, 0) # page_positions"
| "position_calls (Page data page) = (if unat page \<ge> 8 then [] else [(0, page)])"
| "position_calls (Page_segment data column_start column_stop page) =
     (if unat page \<ge> 8 \<or> unat column_stop \<ge> 128 \<or> column_start \<ge> column_stop then []
      else [(column_start, page)])"
| "position_calls (Column data column page) =
     (if unat page \<ge> 8 \<or> unat column \<ge> 128 then [] else [(column, page)])"
| "position_calls Clear = page_positions @ [(0, 0)]"
| "position_calls (Clear_page page) = (if unat page \<ge> 8 then [] else [(0, page)])"
| "position_calls (Clear_page_segment column_start column_stop page) =
     (if unat page \<ge> 8 \<or> unat column_stop \<ge> 128 \<or> column_start \<ge> column_stop then []
      else [(column_start, page)])"
| "position_calls (Clear_column column page) = [(column, page)]"

text \<open>Two buffers: byte \<open>k\<close> holds the low eight bits of \<open>k\<close>; every byte is zero.\<close>

definition ramp :: "nat \<Rightarrow> 8 word" where
  "ramp k = of_nat k"

definition zero_data :: "nat \<Rightarrow> 8 word" where
  "zero_data k = 0"

subsection \<open>Observations on the software transport\<close>

text \<open>
  \<open>bits_clocked data i hw\<close>: the state in which the loop of \<^verbatim>\<open>twi_soft_set(data)\<close>,
  called in \<open>hw\<close>, begins the iteration with counter value \<open>i\<close>; \<open>None\<close> where it does not
  get there (an earlier iteration returned or waits for ever).
\<close>

primrec bits_clocked :: "8 word \<Rightarrow> nat \<Rightarrow> avr \<Rightarrow> avr option" where
  "bits_clocked data 0 hw = Some hw"
| "bits_clocked data (Suc i) hw =
     (case bits_clocked data i hw of
        None \<Rightarrow> None
      | Some h \<Rightarrow>
          (case twi_soft_set_bit data i h of
             None \<Rightarrow> None
           | Some (Some e, h') \<Rightarrow> None
           | Some (None, h') \<Rightarrow> Some h'))"

text \<open>
  The order of the acknowledge phase in the words of the spec: drive the clock low,
  release the data line, wait, release the clock, and then read the input register
  (the wait for the end of clock stretching, then the sample of the data line).
\<close>

fun acknowledge_order_claimed :: "line_event list \<Rightarrow> bool" where
  "acknowledge_order_claimed (Scl_low # Sda_high # Delay # Scl_high # Sample v # es) = True"
| "acknowledge_order_claimed es = False"

text \<open>
  What the master puts on the data line at each release of the clock, in order:
  \<open>True\<close> for released (high), \<open>False\<close> for driven low. \<open>byte_bits\<close> are the bits of a
  byte, most significant first.
\<close>

fun clocked_bits :: "bool \<Rightarrow> line_event list \<Rightarrow> bool list" where
  "clocked_bits sda [] = []"
| "clocked_bits sda (Sda_high # es) = clocked_bits True es"
| "clocked_bits sda (Sda_low # es) = clocked_bits False es"
| "clocked_bits sda (Scl_high # es) = sda # clocked_bits sda es"
| "clocked_bits sda (Scl_low # es) = clocked_bits sda es"
| "clocked_bits sda (Delay # es) = clocked_bits sda es"
| "clocked_bits sda (Sample v # es) = clocked_bits sda es"

definition byte_bits :: "8 word \<Rightarrow> bool list" where
  "byte_bits data = map (\<lambda>k. bit data (7 - k)) [0..<8]"


text \<open>
  Sample machines: registers cleared, nothing read or done yet, and a peer that holds the
  data line low at every read (\<open>peer_ack\<close>), at no read (\<open>peer_idle\<close>), or at the \<open>k\<close>-th
  read only (\<open>peer_ack_at k\<close>); none of them stretches the clock.
\<close>

definition avr_reset :: "(nat \<Rightarrow> 8 word) \<Rightarrow> avr" where
  "avr_reset pins =
     \<lparr>PORTB = 0, DDRB = 0, twi_soft_bus_status = 0, PINB = pins, reads = 0, trace = [],
      levels = []\<rparr>"

definition peer_ack :: "nat \<Rightarrow> 8 word" where
  "peer_ack n = 0x01"

definition peer_idle :: "nat \<Rightarrow> 8 word" where
  "peer_idle n = 0x03"

definition peer_ack_at :: "nat \<Rightarrow> nat \<Rightarrow> 8 word" where
  "peer_ack_at k n = (if n = k then 0x01 else 0x03)"

section \<open>Properties of the display layer\<close>

lemmas oled_consts = OLED_ADDRESS_def OLED_CONTROL_COMMAND_def OLED_CONTROL_DATA_def
  OLED_PAGE_SIZE_def OLED_ROW_SIZE_def OLED_COLUMN_SIZE_def OLED_CMD_SET_DISPLAY_OFFSET_def
  OLED_CMD_SET_PAGE_START_ADDRESS_def OLED_CMD_SET_LOWER_START_COLUMN_ADDRESS_def
  OLED_CMD_SET_HIGHER_START_COLUMN_ADDRESS_def

lemmas oled_macros = twi_def OLED_START_def OLED_STOP_def OLED_DATA_def oled_command_def

lemma OLED_ADDRESS_value: "OLED_ADDRESS = 0x3C"
  by (simp add: OLED_ADDRESS_def)

lemma oled_position_valid:
  "unat column < 128 \<Longrightarrow> unat page < 8 \<Longrightarrow>
   oled_position column page s =
     s\<lparr>column_current_position := column, page_current_position := page,
       bus := bus s @ position_commands column page\<rparr>"
  by (simp add: oled_position_def oled_macros oled_consts position_commands_def Let_def)

lemma oled_position_invalid:
  "unat column \<ge> 128 \<or> unat page \<ge> 8 \<Longrightarrow> oled_position column page s = s"
  by (auto simp add: oled_position_def oled_consts)

lemma page_segment_loop_bus:
  "page_segment_loop data i column_stop s =
     s\<lparr>bus := bus s @ map (\<lambda>k. Twi_set (data k)) [0..<Suc column_stop - i]\<rparr>"
proof (induction data i column_stop s rule: page_segment_loop.induct)
  case (1 data i column_stop s)
  show ?case
  proof (cases "i \<le> column_stop")
    case True
    then have n: "Suc column_stop - i = Suc (column_stop - i)" by simp
    have "[0..<Suc (column_stop - i)] = 0 # map Suc [0..<column_stop - i]"
      by (simp add: upt_conv_Cons map_Suc_upt del: upt_Suc)
    with True 1 n show ?thesis
      by (subst page_segment_loop.simps) (simp add: twi_def comp_def del: upt_Suc)
  next
    case False
    then show ?thesis by (subst page_segment_loop.simps) simp
  qed
qed

lemma clear_page_segment_loop_bus:
  "clear_page_segment_loop i column_stop s =
     s\<lparr>bus := bus s @ replicate (Suc column_stop - i) (Twi_set 0)\<rparr>"
proof (induction i column_stop s rule: clear_page_segment_loop.induct)
  case (1 i column_stop s)
  show ?case
  proof (cases "i \<le> column_stop")
    case True
    then have n: "Suc column_stop - i = Suc (column_stop - i)" by simp
    with True 1 show ?thesis
      by (subst clear_page_segment_loop.simps) (simp add: twi_def replicate_app_Cons_same)
  next
    case False
    then show ?thesis by (subst clear_page_segment_loop.simps) simp
  qed
qed

lemma segment_valid_start:
  fixes column_start column_stop :: "8 word"
  assumes "unat column_stop < 128" "column_start < column_stop"
  shows "unat column_start < 128"
  using assms by (simp add: word_less_nat_alt)

lemma oled_page_segment_valid:
  assumes "unat page < 8" "unat column_stop < 128" "column_start < column_stop"
  shows "oled_page_segment data column_start column_stop page s =
     s\<lparr>column_current_position := column_start, page_current_position := page,
       bus := bus s @ position_commands column_start page
              @ single_control_transaction 0x40
                  (map data [0..<Suc (unat column_stop) - unat column_start])\<rparr>"
proof -
  have cs: "unat column_start < 128" using assms(2,3) by (rule segment_valid_start)
  have g: "\<not> (unat page \<ge> OLED_PAGE_SIZE \<or> unat column_stop \<ge> OLED_COLUMN_SIZE
         \<or> column_start \<ge> column_stop)"
    using assms by (simp add: oled_consts not_le)
  show ?thesis
    unfolding oled_page_segment_def
    by (simp only: g if_False Let_def)
       (simp add: oled_position_valid [OF cs assms(1)] page_segment_loop_bus
          OLED_START_def OLED_STOP_def OLED_DATA_def twi_def single_control_transaction_def
          OLED_ADDRESS_value OLED_CONTROL_DATA_def comp_def del: upt_Suc)
qed

lemma oled_clear_page_segment_valid:
  assumes "unat page < 8" "unat column_stop < 128" "column_start < column_stop"
  shows "oled_clear_page_segment column_start column_stop page s =
     s\<lparr>column_current_position := column_start, page_current_position := page,
       bus := bus s @ position_commands column_start page
              @ single_control_transaction 0x40 (replicate (Suc (unat column_stop)) 0)\<rparr>"
proof -
  have cs: "unat column_start < 128" using assms(2,3) by (rule segment_valid_start)
  have g: "\<not> (unat page \<ge> OLED_PAGE_SIZE \<or> unat column_stop \<ge> OLED_COLUMN_SIZE
         \<or> column_start \<ge> column_stop)"
    using assms by (simp add: oled_consts not_le)
  show ?thesis
    unfolding oled_clear_page_segment_def
    by (simp only: g if_False Let_def)
       (simp add: oled_position_valid [OF cs assms(1)] clear_page_segment_loop_bus
          OLED_START_def OLED_STOP_def OLED_DATA_def twi_def single_control_transaction_def
          OLED_ADDRESS_value OLED_CONTROL_DATA_def del: upt_Suc replicate_Suc)
qed

lemma oled_clear_column_bus:
  "oled_clear_column column page s =
     (oled_position column page s)\<lparr>bus := bus (oled_position column page s)
        @ [Twi_start, Twi_address 0x3C TWI_Write, Twi_set 0x40, Twi_set 0x00, Twi_stop]\<rparr>"
  by (simp add: oled_clear_column_def oled_macros OLED_ADDRESS_value OLED_CONTROL_DATA_def Let_def)


lemma cursor_in_bounds_bus [simp]: "cursor_in_bounds (s\<lparr>bus := b\<rparr>) = cursor_in_bounds s"
  by (simp add: cursor_in_bounds_def)

lemma cursor_in_bounds_twi [simp]: "cursor_in_bounds (twi c s) = cursor_in_bounds s"
  by (simp add: twi_def)

lemma cursor_in_bounds_position:
  "cursor_in_bounds s \<Longrightarrow> cursor_in_bounds (oled_position column page s)"
  by (cases "unat column < 128 \<and> unat page < 8")
     (auto simp add: oled_position_valid oled_position_invalid cursor_in_bounds_def not_less)

lemma cursor_in_bounds_page_segment:
  "cursor_in_bounds s \<Longrightarrow> cursor_in_bounds (oled_page_segment data column_start column_stop page s)"
proof (cases "unat page < 8 \<and> unat column_stop < 128 \<and> column_start < column_stop")
  case True
  then have "unat column_start < 128" by (blast intro: segment_valid_start)
  with True show ?thesis
    by (simp add: oled_page_segment_valid) (simp add: cursor_in_bounds_def)
next
  case False
  assume "cursor_in_bounds s"
  with False show ?thesis by (auto simp add: oled_page_segment_def oled_consts not_less)
qed

lemma cursor_in_bounds_clear_page_segment:
  "cursor_in_bounds s \<Longrightarrow> cursor_in_bounds (oled_clear_page_segment column_start column_stop page s)"
proof (cases "unat page < 8 \<and> unat column_stop < 128 \<and> column_start < column_stop")
  case True
  then have "unat column_start < 128" by (blast intro: segment_valid_start)
  with True show ?thesis
    by (simp add: oled_clear_page_segment_valid) (simp add: cursor_in_bounds_def)
next
  case False
  assume "cursor_in_bounds s"
  with False show ?thesis by (auto simp add: oled_clear_page_segment_def oled_consts not_less)
qed

lemma cursor_in_bounds_page:
  "cursor_in_bounds s \<Longrightarrow> cursor_in_bounds (oled_page data page s)"
  by (simp add: oled_page_def cursor_in_bounds_page_segment)

lemma cursor_in_bounds_frame_loop:
  "cursor_in_bounds s \<Longrightarrow> cursor_in_bounds (oled_frame_loop frame page s)"
proof (induction frame page s rule: oled_frame_loop.induct)
  case (1 frame page s)
  then show ?case
    by (subst oled_frame_loop.simps) (simp add: cursor_in_bounds_page)
qed

lemma cursor_in_bounds_clear_loop:
  "cursor_in_bounds s \<Longrightarrow> cursor_in_bounds (oled_clear_loop page s)"
proof (induction page s rule: oled_clear_loop.induct)
  case (1 page s)
  then show ?case
    by (subst oled_clear_loop.simps)
       (simp add: oled_clear_page_def cursor_in_bounds_clear_page_segment)
qed

lemma cursor_in_bounds_clear:
  "cursor_in_bounds s \<Longrightarrow> cursor_in_bounds (oled_clear s)"
  by (simp add: oled_clear_def OLED_HOME_def cursor_in_bounds_position cursor_in_bounds_clear_loop)

lemma cursor_in_bounds_fold_command:
  "cursor_in_bounds (fold oled_command cs s) = cursor_in_bounds s"
  by (induction cs arbitrary: s) (simp_all add: oled_command_def)

lemma cursor_in_bounds_call:
  "cursor_in_bounds s \<Longrightarrow> cursor_in_bounds (oled_call r s)"
proof (cases r)
  case Init
  assume "cursor_in_bounds s"
  then show ?thesis
    by (simp add: Init oled_init_def Let_def OLED_START_def OLED_STOP_def
          cursor_in_bounds_clear cursor_in_bounds_fold_command)
next
  case (Scroll_vertical scroll)
  assume "cursor_in_bounds s"
  then show ?thesis
    by (simp add: Scroll_vertical oled_scroll_vertical_def Let_def OLED_START_def OLED_STOP_def
          oled_command_def)
next
  case (Frame frame)
  assume "cursor_in_bounds s"
  then show ?thesis
    by (simp add: Frame oled_frame_def OLED_HOME_def cursor_in_bounds_frame_loop
          cursor_in_bounds_position)
next
  case (Column data column page)
  assume "cursor_in_bounds s"
  then show ?thesis
    by (simp add: Column oled_column_def Let_def OLED_START_def OLED_STOP_def OLED_DATA_def
          cursor_in_bounds_position)
next
  case (Clear_column column page)
  assume "cursor_in_bounds s"
  then show ?thesis
    by (simp add: Clear_column oled_clear_column_bus cursor_in_bounds_position)
qed (simp_all add: oled_disable_def cursor_in_bounds_position cursor_in_bounds_page
       cursor_in_bounds_page_segment cursor_in_bounds_clear cursor_in_bounds_clear_page_segment
       oled_clear_page_def)

lemma cursor_in_bounds_session:
  "cursor_in_bounds s \<Longrightarrow> cursor_in_bounds (oled_session rs s)"
  unfolding oled_session_def
  by (induction rs arbitrary: s) (simp_all add: cursor_in_bounds_call)

lemma cursor_in_bounds_reset: "cursor_in_bounds oled_reset"
  by (simp add: cursor_in_bounds_def oled_reset_def)

lemma oled_page_valid:
  assumes "unat page < 8"
  shows "oled_page data page s =
     s\<lparr>column_current_position := 0, page_current_position := page,
       bus := bus s @ position_commands 0 page
              @ single_control_transaction 0x40 (map data [0..<128])\<rparr>"
proof -
  have "oled_page data page s = oled_page_segment data 0 127 page s"
    using assms by (simp add: oled_page_def oled_consts)
  also have "\<dots> = s\<lparr>column_current_position := 0, page_current_position := page,
       bus := bus s @ position_commands 0 page
              @ single_control_transaction 0x40 (map data [0..<Suc (unat (127 :: 8 word)) - unat (0 :: 8 word)])\<rparr>"
    using assms by (intro oled_page_segment_valid) simp_all
  finally show ?thesis by (simp del: upt_Suc)
qed

lemma oled_frame_loop_bus:
  "page \<le> 8 \<Longrightarrow>
   bus (oled_frame_loop frame page s) =
     bus s @ concat (map (frame_transactions 8 frame) [page..<8])"
proof (induction frame page s rule: oled_frame_loop.induct)
  case (1 frame page s)
  show ?case
  proof (cases "page < 8")
    case True
    then have u: "unat (of_nat page :: 8 word) < 8"
      by (simp add: unat_of_nat)
    have ih: "bus (oled_frame_loop frame (Suc page)
             (oled_page (\<lambda>k. frame (page * OLED_PAGE_SIZE + k)) (of_nat page) s)) =
          bus (oled_page (\<lambda>k. frame (page * OLED_PAGE_SIZE + k)) (of_nat page) s)
          @ concat (map (frame_transactions 8 frame) [Suc page..<8])"
      using True by (intro 1) (simp_all add: OLED_PAGE_SIZE_def)
    have "[page..<8] = page # [Suc page..<8]"
      using True by (simp add: upt_conv_Cons)
    then show ?thesis
      using True ih
      by (subst oled_frame_loop.simps)
         (simp add: oled_page_valid [OF u] frame_transactions_def OLED_PAGE_SIZE_def del: upt_Suc)
  next
    case False
    with 1(2) have "page = 8" by simp
    then show ?thesis by (subst oled_frame_loop.simps) (simp add: OLED_PAGE_SIZE_def)
  qed
qed

lemma oled_frame_bus:
  "bus (oled_frame frame s) =
     bus s @ position_commands 0 0 @ concat (map (frame_transactions 8 frame) [0..<8])"
  by (simp add: oled_frame_def OLED_HOME_def oled_frame_loop_bus oled_position_valid)


lemma position_commands_per_command:
  "position_commands column page =
     per_command_transaction [0xB0 OR (0x07 AND page), 0x0F AND column,
                              0x10 OR (0x0F AND drop_bit 4 column)]"
  by (simp add: position_commands_def per_command_transaction_def)

lemma fold_oled_command_bus:
  "bus (fold oled_command cs s) = bus s @ concat (map (\<lambda>c. [Twi_set 0x80, Twi_set c]) cs)"
  by (induction cs arbitrary: s) (simp_all add: oled_command_def twi_def OLED_CONTROL_COMMAND_def)

lemma command_transaction_bus:
  "bus (OLED_STOP (fold oled_command cs (OLED_START TWI_Write s))) =
     bus s @ per_command_transaction cs"
  by (simp add: OLED_STOP_def OLED_START_def twi_def fold_oled_command_bus
        per_command_transaction_def OLED_ADDRESS_value)

lemma oled_scroll_vertical_bus:
  "unat scroll < 64 \<Longrightarrow>
   bus (oled_scroll_vertical scroll s) = bus s @ per_command_transaction [0xD3, scroll]"
  by (simp add: oled_scroll_vertical_def oled_macros oled_consts per_command_transaction_def
        OLED_ADDRESS_value Let_def)

lemma oled_column_bus:
  "unat column < 128 \<Longrightarrow> unat page < 8 \<Longrightarrow>
   bus (oled_column data column page s) =
     bus s @ position_commands column page @ single_control_transaction 0x40 [data]"
  by (simp add: oled_column_def oled_position_valid oled_macros oled_consts
        single_control_transaction_def Let_def)

text \<open>
  Claim C1. A call \<^verbatim>\<open>oled_page_segment(data, column_start, column_stop, page)\<close> with
  \<open>column_start \<ge> column_stop\<close>, or \<open>column_stop \<ge> 128\<close>, or \<open>page \<ge> 8\<close> makes no
  transport call and leaves the whole state, cursor included, as it was.
\<close>
theorem oled_page_segment_out_of_range:
  "column_start \<ge> column_stop \<or> unat column_stop \<ge> 128 \<or> unat page \<ge> 8 \<Longrightarrow>
   oled_page_segment data column_start column_stop page s = s"
  by (auto simp add: oled_page_segment_def oled_consts)

text \<open>Witness for C1: a one-column request on the fresh state.\<close>

theorem oled_page_segment_out_of_range_witness:
  "(5 :: 8 word) \<ge> 5 \<and> oled_page_segment ramp 5 5 0 oled_reset = oled_reset"
  using oled_page_segment_out_of_range
          [where column_start = 5 and column_stop = 5 and page = 0 and data = ramp
             and s = oled_reset]
  by simp

text \<open>
  Claim C2, evaluated at \<^verbatim>\<open>oled_clear_page_segment(5, 10, 0)\<close>. The claim has the clear
  operation send \<open>column_stop - column_start + 1\<close> zero bytes, as \<^verbatim>\<open>oled_page_segment\<close>
  does with a zero buffer (6 bytes here). The clear loop counts from 0, not from
  \<open>column_start\<close>, and sends \<open>column_stop + 1\<close> zero bytes (11 here).
\<close>
theorem oled_clear_page_segment_zero_count:
  "bus (oled_clear_page_segment 5 10 0 oled_reset) =
     position_commands 5 0 @ single_control_transaction 0x40 (replicate 11 0)
   \<and> bus (oled_page_segment zero_data 5 10 0 oled_reset) =
     position_commands 5 0 @ single_control_transaction 0x40 (replicate 6 0)"
proof -
  have v: "unat (0 :: 8 word) < 8" "unat (10 :: 8 word) < 128" "(5 :: 8 word) < 10"
    by simp_all
  have "map zero_data xs = replicate (length xs) 0" for xs
    by (induction xs) (simp_all add: zero_data_def)
  from this [of "[0..<6]"] have m: "map zero_data [0..<6] = replicate 6 0"
    by (simp del: upt_Suc replicate_Suc)
  show ?thesis
    by (simp add: oled_clear_page_segment_valid [OF v] oled_page_segment_valid [OF v] m
          oled_reset_def del: upt_Suc replicate_Suc)
qed

lemma frame_layouts_differ:
  assumes "position_commands a b @ concat (map (frame_transactions 8 f) [0..<8]) =
           position_commands a b @ concat (map (frame_transactions 128 f) [0..<8])"
  shows "f 8 = f 128"
proof -
  have u: "[0..<8] = 0 # 1 # [2..<8]"
    by (simp add: upt_conv_Cons del: upt_Suc)
  have z: "frame_transactions 8 f 0 = frame_transactions 128 f 0"
    by (simp add: frame_transactions_def)
  have len: "length (frame_transactions 8 f 1) = length (frame_transactions 128 f 1)"
    by (simp add: frame_transactions_def single_control_transaction_def del: upt_Suc)
  from assms have "frame_transactions 8 f 1 @ concat (map (frame_transactions 8 f) [2..<8]) =
      frame_transactions 128 f 1 @ concat (map (frame_transactions 128 f) [2..<8])"
    unfolding u by (simp add: z del: upt_Suc)
  with len have "frame_transactions 8 f 1 = frame_transactions 128 f 1"
    using append_eq_append_conv by blast
  then have "map (\<lambda>j. f (8 + j)) [0..<128] = map (\<lambda>j. f (128 + j)) [0..<128]"
    by (simp add: frame_transactions_def single_control_transaction_def del: upt_Suc)
  then have "\<forall>j \<in> set [0..<128]. f (8 + j) = f (128 + j)"
    by (simp only: map_eq_conv)
  then show ?thesis
    by (auto dest!: bspec [where x = 0])
qed

text \<open>
  Claim C3, evaluated on the buffer \<open>ramp\<close>. The claim has page \<open>p\<close> of
  \<^verbatim>\<open>oled_frame\<close> receive the 128 bytes from offset \<open>p * 128\<close>. The code advances the
  buffer by \<^verbatim>\<open>OLED_PAGE_SIZE\<close> (8) per page: page \<open>p\<close> receives the 128 bytes from
  offset \<open>p * 8\<close>, which differs from the page-major layout from page 1 on.
\<close>
theorem oled_frame_page_offsets:
  "bus (oled_frame ramp oled_reset) =
     position_commands 0 0 @ concat (map (frame_transactions 8 ramp) [0..<8])
   \<and> bus (oled_frame ramp oled_reset) \<noteq>
     position_commands 0 0 @ concat (map (frame_transactions 128 ramp) [0..<8])"
proof -
  have eq: "bus (oled_frame ramp oled_reset) =
     position_commands 0 0 @ concat (map (frame_transactions 8 ramp) [0..<8])"
    by (simp add: oled_frame_bus oled_reset_def del: upt_Suc)
  have "ramp 8 \<noteq> ramp 128" by (simp add: ramp_def)
  with frame_layouts_differ [of 0 0 ramp] eq show ?thesis
    by auto
qed

lemma cursor_bus [simp]: "cursor (s\<lparr>bus := b\<rparr>) = cursor s"
  by (simp add: cursor_def)

lemma cursor_twi [simp]: "cursor (twi c s) = cursor s"
  by (simp add: twi_def)

lemma cursor_position:
  "cursor (oled_position column page s) =
     (if unat column < 128 \<and> unat page < 8 then (column, page) else cursor s)"
  by (auto simp add: oled_position_valid oled_position_invalid cursor_def not_less)

lemma cursor_positions_cong:
  "cursor s = cursor t \<Longrightarrow> cursor (oled_positions ps s) = cursor (oled_positions ps t)"
proof (induction ps arbitrary: s t)
  case Nil
  then show ?case by simp
next
  case (Cons p ps)
  obtain column page where p: "p = (column, page)" by (cases p)
  from Cons.prems have "cursor (oled_position column page s) = cursor (oled_position column page t)"
    by (simp add: cursor_position)
  then have "cursor (oled_positions ps (oled_position column page s)) =
             cursor (oled_positions ps (oled_position column page t))"
    by (rule Cons.IH)
  then show ?case unfolding p by simp
qed

lemma cursor_page_segment:
  "cursor (oled_page_segment data column_start column_stop page s) =
     (if unat page \<ge> 8 \<or> unat column_stop \<ge> 128 \<or> column_start \<ge> column_stop then cursor s
      else cursor (oled_position column_start page s))"
  by (simp add: oled_page_segment_def oled_consts oled_macros Let_def page_segment_loop_bus)

lemma cursor_clear_page_segment:
  "cursor (oled_clear_page_segment column_start column_stop page s) =
     (if unat page \<ge> 8 \<or> unat column_stop \<ge> 128 \<or> column_start \<ge> column_stop then cursor s
      else cursor (oled_position column_start page s))"
  by (simp add: oled_clear_page_segment_def oled_consts oled_macros Let_def
        clear_page_segment_loop_bus)

lemma cursor_page:
  "cursor (oled_page data page s) =
     (if unat page \<ge> 8 then cursor s else cursor (oled_position 0 page s))"
  by (simp add: oled_page_def cursor_page_segment oled_consts)

lemma cursor_clear_page:
  "cursor (oled_clear_page page s) =
     (if unat page \<ge> 8 then cursor s else cursor (oled_position 0 page s))"
  by (simp add: oled_clear_page_def cursor_clear_page_segment oled_consts)

lemma cursor_column:
  "cursor (oled_column data column page s) =
     (if unat page \<ge> 8 \<or> unat column \<ge> 128 then cursor s
      else cursor (oled_position column page s))"
  by (simp add: oled_column_def oled_consts oled_macros Let_def)

lemma cursor_clear_column:
  "cursor (oled_clear_column column page s) = cursor (oled_position column page s)"
  by (simp add: oled_clear_column_bus)

lemma cursor_scroll_vertical:
  "cursor (oled_scroll_vertical scroll s) = cursor s"
  by (simp add: oled_scroll_vertical_def oled_macros Let_def)

lemma cursor_frame_loop:
  "page \<le> 8 \<Longrightarrow>
   cursor (oled_frame_loop frame page s) =
     cursor (oled_positions (map (\<lambda>p. (0, of_nat p)) [page..<8]) s)"
proof (induction frame page s rule: oled_frame_loop.induct)
  case (1 frame page s)
  show ?case
  proof (cases "page < 8")
    case True
    then have u: "\<not> unat (of_nat page :: 8 word) \<ge> 8"
      by (simp add: unat_of_nat)
    let ?s = "oled_page (\<lambda>k. frame (page * OLED_PAGE_SIZE + k)) (of_nat page) s"
    have "cursor (oled_frame_loop frame (Suc page) ?s) =
          cursor (oled_positions (map (\<lambda>p. (0, of_nat p)) [Suc page..<8]) ?s)"
      using True by (intro 1) (simp_all add: OLED_PAGE_SIZE_def)
    also have "\<dots> = cursor (oled_positions (map (\<lambda>p. (0, of_nat p)) [Suc page..<8])
                        (oled_position 0 (of_nat page) s))"
      by (rule cursor_positions_cong) (simp add: cursor_page u)
    finally show ?thesis
      using True
      by (subst oled_frame_loop.simps) (simp add: OLED_PAGE_SIZE_def upt_conv_Cons del: upt_Suc)
  next
    case False
    with 1(2) have "page = 8" by simp
    then show ?thesis by (subst oled_frame_loop.simps) (simp add: OLED_PAGE_SIZE_def)
  qed
qed

lemma cursor_clear_loop:
  "page \<le> 8 \<Longrightarrow>
   cursor (oled_clear_loop page s) =
     cursor (oled_positions (map (\<lambda>p. (0, of_nat p)) [page..<8]) s)"
proof (induction page s rule: oled_clear_loop.induct)
  case (1 page s)
  show ?case
  proof (cases "page < 8")
    case True
    then have u: "\<not> unat (of_nat page :: 8 word) \<ge> 8"
      by (simp add: unat_of_nat)
    let ?s = "oled_clear_page (of_nat page) s"
    have "cursor (oled_clear_loop (Suc page) ?s) =
          cursor (oled_positions (map (\<lambda>p. (0, of_nat p)) [Suc page..<8]) ?s)"
      using True by (intro 1) (simp_all add: OLED_PAGE_SIZE_def)
    also have "\<dots> = cursor (oled_positions (map (\<lambda>p. (0, of_nat p)) [Suc page..<8])
                        (oled_position 0 (of_nat page) s))"
      by (rule cursor_positions_cong) (simp add: cursor_clear_page u)
    finally show ?thesis
      using True
      by (subst oled_clear_loop.simps) (simp add: OLED_PAGE_SIZE_def upt_conv_Cons del: upt_Suc)
  next
    case False
    with 1(2) have "page = 8" by simp
    then show ?thesis by (subst oled_clear_loop.simps) (simp add: OLED_PAGE_SIZE_def)
  qed
qed

lemma page_positions_map: "map (\<lambda>p. (0, of_nat p)) [0..<8] = page_positions"
  by (simp add: page_positions_def upt_conv_Cons del: upt_Suc)

lemma oled_positions_append:
  "oled_positions (ps @ qs) s = oled_positions qs (oled_positions ps s)"
  by (induction ps arbitrary: s) auto

lemma cursor_clear:
  "cursor (oled_clear s) = cursor (oled_positions (page_positions @ [(0, 0)]) s)"
proof -
  have "cursor (oled_clear_loop 0 s) = cursor (oled_positions page_positions s)"
    using cursor_clear_loop [of 0 s] by (simp add: page_positions_map del: upt_Suc)
  then have "cursor (oled_positions [(0, 0)] (oled_clear_loop 0 s)) =
             cursor (oled_positions [(0, 0)] (oled_positions page_positions s))"
    by (rule cursor_positions_cong)
  then show ?thesis
    by (simp add: oled_clear_def OLED_HOME_def oled_positions_append)
qed

lemma cursor_fold_command: "cursor (fold oled_command cs s) = cursor s"
  by (induction cs arbitrary: s) (simp_all add: oled_command_def)

lemma cursor_init:
  "cursor (oled_init s) = cursor (oled_positions (page_positions @ [(0, 0)]) s)"
proof -
  let ?s = "OLED_STOP (fold oled_command oled_init_commands (OLED_START TWI_Write (twi Twi_init s)))"
  have "cursor ?s = cursor s"
    by (simp add: OLED_STOP_def OLED_START_def cursor_fold_command)
  then have "cursor (oled_positions (page_positions @ [(0, 0)]) ?s) =
             cursor (oled_positions (page_positions @ [(0, 0)]) s)"
    by (rule cursor_positions_cong)
  then show ?thesis
    by (simp add: oled_init_def Let_def cursor_clear)
qed

lemma cursor_frame:
  "cursor (oled_frame frame s) = cursor (oled_positions ((0, 0) # page_positions) s)"
  using cursor_frame_loop [of 0 frame "oled_position 0 0 s"]
  by (simp add: oled_frame_def OLED_HOME_def page_positions_map del: upt_Suc)

lemma cursor_call:
  "cursor (oled_call r s) = cursor (oled_positions (position_calls r) s)"
  by (cases r)
     (simp_all add: cursor_init oled_disable_def cursor_scroll_vertical cursor_frame cursor_page
        cursor_page_segment cursor_column cursor_clear cursor_clear_page
        cursor_clear_page_segment cursor_clear_column)

text \<open>
  Claim C6. From the initial cursor (0,0), after any sequence of calls of the public
  functions the cursor has column below 128 and page below 8. A call
  \<^verbatim>\<open>oled_position(column, page)\<close> with \<open>column \<ge> 128\<close> or \<open>page \<ge> 8\<close> changes nothing
  and sends nothing; \<^verbatim>\<open>oled_position(10, 3)\<close> followed by \<^verbatim>\<open>oled_position(200, 3)\<close>
  leaves the cursor at (10, 3). The cursor is changed by \<^verbatim>\<open>oled_position\<close> only: after
  every public function it is the cursor that the \<^verbatim>\<open>oled_position\<close> calls of that
  function alone give, and the one of before where it makes none
  (\<^verbatim>\<open>oled_scroll_vertical\<close>, \<^verbatim>\<open>oled_disable\<close>, a rejected request); the transport calls
  do not touch it.
\<close>

theorem cursor_always_in_bounds:
  "cursor_in_bounds (oled_session rs oled_reset)
   \<and> (unat column \<ge> 128 \<or> unat page \<ge> 8 \<longrightarrow> oled_position column page s = s)
   \<and> column_current_position (oled_position 200 3 (oled_position 10 3 s)) = 10
   \<and> page_current_position (oled_position 200 3 (oled_position 10 3 s)) = 3
   \<and> cursor (oled_call r s) = cursor (oled_positions (position_calls r) s)
   \<and> column_current_position (twi c s) = column_current_position s
   \<and> page_current_position (twi c s) = page_current_position s"
proof -
  have a: "cursor_in_bounds (oled_session rs oled_reset)"
    by (rule cursor_in_bounds_session [OF cursor_in_bounds_reset])
  have b: "unat column \<ge> 128 \<or> unat page \<ge> 8 \<longrightarrow> oled_position column page s = s"
    by (blast intro: oled_position_invalid)
  have c: "oled_position 200 3 (oled_position 10 3 s) = oled_position 10 3 s"
    by (rule oled_position_invalid) simp
  have d: "column_current_position (oled_position 10 3 s) = 10"
          "page_current_position (oled_position 10 3 s) = 3"
    by (simp_all add: oled_position_valid)
  show ?thesis
    using a b by (simp add: c d twi_def cursor_call)
qed

text \<open>Witness for C6.\<close>

theorem cursor_always_in_bounds_witness:
  "cursor_in_bounds (oled_session [Position 10 3, Position 200 3, Clear_column 200 9] oled_reset)
   \<and> unat (200 :: 8 word) \<ge> 128
   \<and> oled_position 200 3 oled_reset = oled_reset
   \<and> cursor (oled_call (Scroll_vertical 5) (oled_position 10 3 oled_reset)) = (10, 3)
   \<and> cursor (oled_call (Page_segment ramp 4 9 2) (oled_position 10 3 oled_reset)) = (4, 2)
   \<and> cursor (oled_call (Page_segment ramp 9 4 2) (oled_position 10 3 oled_reset)) = (10, 3)"
  using cursor_always_in_bounds
          [where rs = "[Position 10 3, Position 200 3, Clear_column 200 9]"
             and column = 200 and page = 3 and s = oled_reset]
        cursor_always_in_bounds
          [where r = "Scroll_vertical 5" and s = "oled_position 10 3 oled_reset"]
        cursor_always_in_bounds
          [where r = "Page_segment ramp 4 9 2" and s = "oled_position 10 3 oled_reset"]
        cursor_always_in_bounds
          [where r = "Page_segment ramp 9 4 2" and s = "oled_position 10 3 oled_reset"]
  by (simp add: cursor_position)

text \<open>
  Claim C7 as stated fails: the transaction of \<^verbatim>\<open>oled_position(10, 3)\<close> carries the
  command-control byte three times, once before each of its three commands, and is not
  the transaction with a single control byte.
\<close>
theorem oled_position_control_bytes_counterexample:
  "bus (oled_position 10 3 oled_reset) =
     [Twi_start, Twi_address 0x3C TWI_Write,
      Twi_set 0x80, Twi_set 0xB3, Twi_set 0x80, Twi_set 0x0A, Twi_set 0x80, Twi_set 0x10,
      Twi_stop]
   \<and> bus (oled_position 10 3 oled_reset) \<noteq>
     single_control_transaction OLED_CONTROL_COMMAND [0xB3, 0x0A, 0x10]"
  by (simp add: oled_position_valid position_commands_def single_control_transaction_def
        oled_reset_def OLED_CONTROL_COMMAND_def)

text \<open>
  Claim C7, amended. A command transaction (start, address, then the commands, stop)
  carries the command-control byte \<open>0x80\<close> before each command byte: three times in the
  cursor transaction of \<^verbatim>\<open>oled_position\<close>, twice in \<^verbatim>\<open>oled_scroll_vertical\<close>. A data
  transaction carries the data-control byte \<open>0x40\<close> once, after the address byte and
  before the payload. The two control values differ.
\<close>

theorem control_byte_framing:
  "bus (OLED_STOP (fold oled_command commands (OLED_START TWI_Write s))) =
     bus s @ per_command_transaction commands
   \<and> (unat column < 128 \<and> unat page < 8 \<longrightarrow>
        bus (oled_position column page s) =
          bus s @ per_command_transaction
                    [0xB0 OR (0x07 AND page), 0x0F AND column,
                     0x10 OR (0x0F AND drop_bit 4 column)])
   \<and> (unat scroll < 64 \<longrightarrow>
        bus (oled_scroll_vertical scroll s) = bus s @ per_command_transaction [0xD3, scroll])
   \<and> (unat page < 8 \<and> unat column_stop < 128 \<and> column_start < column_stop \<longrightarrow>
        bus (oled_page_segment data column_start column_stop page s) =
          bus s @ position_commands column_start page
          @ single_control_transaction OLED_CONTROL_DATA
              (map data [0..<Suc (unat column_stop) - unat column_start]))
   \<and> (unat page < 8 \<and> unat column_stop < 128 \<and> column_start < column_stop \<longrightarrow>
        bus (oled_clear_page_segment column_start column_stop page s) =
          bus s @ position_commands column_start page
          @ single_control_transaction OLED_CONTROL_DATA (replicate (Suc (unat column_stop)) 0))
   \<and> (unat column < 128 \<and> unat page < 8 \<longrightarrow>
        bus (oled_column byte column page s) =
          bus s @ position_commands column page
          @ single_control_transaction OLED_CONTROL_DATA [byte])
   \<and> bus (oled_clear_column column page s) =
        bus (oled_position column page s) @ single_control_transaction OLED_CONTROL_DATA [0]
   \<and> OLED_CONTROL_COMMAND \<noteq> OLED_CONTROL_DATA"
proof -
  have 1: "bus (OLED_STOP (fold oled_command commands (OLED_START TWI_Write s))) =
     bus s @ per_command_transaction commands"
    by (rule command_transaction_bus)
  have 2: "unat column < 128 \<and> unat page < 8 \<longrightarrow>
        bus (oled_position column page s) =
          bus s @ per_command_transaction
                    [0xB0 OR (0x07 AND page), 0x0F AND column,
                     0x10 OR (0x0F AND drop_bit 4 column)]"
    by (simp add: oled_position_valid position_commands_per_command)
  have 3: "unat scroll < 64 \<longrightarrow>
        bus (oled_scroll_vertical scroll s) = bus s @ per_command_transaction [0xD3, scroll]"
    by (simp add: oled_scroll_vertical_bus)
  have 4: "unat page < 8 \<and> unat column_stop < 128 \<and> column_start < column_stop \<longrightarrow>
        bus (oled_page_segment data column_start column_stop page s) =
          bus s @ position_commands column_start page
          @ single_control_transaction OLED_CONTROL_DATA
              (map data [0..<Suc (unat column_stop) - unat column_start])"
    by (simp add: oled_page_segment_valid OLED_CONTROL_DATA_def del: upt_Suc)
  have 5: "unat page < 8 \<and> unat column_stop < 128 \<and> column_start < column_stop \<longrightarrow>
        bus (oled_clear_page_segment column_start column_stop page s) =
          bus s @ position_commands column_start page
          @ single_control_transaction OLED_CONTROL_DATA (replicate (Suc (unat column_stop)) 0)"
    by (simp add: oled_clear_page_segment_valid OLED_CONTROL_DATA_def del: replicate_Suc)
  have 6: "unat column < 128 \<and> unat page < 8 \<longrightarrow>
        bus (oled_column byte column page s) =
          bus s @ position_commands column page
          @ single_control_transaction OLED_CONTROL_DATA [byte]"
    by (simp add: oled_column_bus OLED_CONTROL_DATA_def)
  have 7: "bus (oled_clear_column column page s) =
        bus (oled_position column page s) @ single_control_transaction OLED_CONTROL_DATA [0]"
    by (simp add: oled_clear_column_bus single_control_transaction_def OLED_CONTROL_DATA_def)
  have 8: "OLED_CONTROL_COMMAND \<noteq> OLED_CONTROL_DATA"
    by (simp add: OLED_CONTROL_COMMAND_def OLED_CONTROL_DATA_def)
  from 1 2 3 4 5 6 7 8 show ?thesis by blast
qed

text \<open>Witness for the amended C7.\<close>

theorem control_byte_framing_witness:
  "unat (10 :: 8 word) < 128 \<and> unat (3 :: 8 word) < 8 \<and> unat (20 :: 8 word) < 64
   \<and> unat (12 :: 8 word) < 128 \<and> (10 :: 8 word) < 12
   \<and> bus (oled_position 10 3 oled_reset) = per_command_transaction [0xB3, 0x0A, 0x10]
   \<and> bus (oled_scroll_vertical 20 oled_reset) = per_command_transaction [0xD3, 20]
   \<and> bus (oled_page_segment ramp 10 12 3 oled_reset) =
       position_commands 10 3 @ single_control_transaction OLED_CONTROL_DATA [0, 1, 2]
   \<and> bus (oled_clear_page_segment 10 12 3 oled_reset) =
       position_commands 10 3 @ single_control_transaction OLED_CONTROL_DATA (replicate 13 0)
   \<and> bus (oled_column 0xFF 10 3 oled_reset) =
       position_commands 10 3 @ single_control_transaction OLED_CONTROL_DATA [0xFF]"
  using control_byte_framing
          [where column = 10 and page = 3 and scroll = 20 and column_start = 10
             and column_stop = 12 and data = ramp and byte = "0xFF" and s = oled_reset]
  by (simp add: oled_reset_def ramp_def upt_conv_Cons del: replicate_Suc upt_Suc)

text \<open>
  Claim C10. \<^verbatim>\<open>oled_clear_column(column, page)\<close> has no bounds check: with
  \<open>column \<ge> 128\<close> or \<open>page \<ge> 8\<close> the embedded \<^verbatim>\<open>oled_position\<close> does nothing, the cursor
  stays where it was, and the full data transaction (start, address, data-control
  byte, one zero byte, stop) is still sent. The segment operations send nothing on such
  input.
\<close>
theorem oled_clear_column_unchecked:
  "unat column \<ge> 128 \<or> unat page \<ge> 8 \<Longrightarrow>
   oled_clear_column column page s =
     s\<lparr>bus := bus s @ [Twi_start, Twi_address 0x3C TWI_Write, Twi_set 0x40, Twi_set 0x00,
                       Twi_stop]\<rparr>
   \<and> oled_clear_page_segment column_start column page s = s
   \<and> oled_page_segment data column_start column page s = s"
  by (auto simp add: oled_clear_column_bus oled_position_invalid oled_clear_page_segment_def
        oled_page_segment_def oled_consts)

text \<open>Witness for C10: the cursor stays at (10, 3) while the zero byte goes out.\<close>

theorem oled_clear_column_unchecked_witness:
  "unat (200 :: 8 word) \<ge> 128
   \<and> oled_clear_column 200 3 (oled_position 10 3 oled_reset) =
       (oled_position 10 3 oled_reset)
         \<lparr>bus := bus (oled_position 10 3 oled_reset)
                 @ [Twi_start, Twi_address 0x3C TWI_Write, Twi_set 0x40, Twi_set 0x00, Twi_stop]\<rparr>
   \<and> column_current_position (oled_clear_column 200 3 (oled_position 10 3 oled_reset)) = 10
   \<and> oled_clear_page_segment 0 200 3 (oled_position 10 3 oled_reset) = oled_position 10 3 oled_reset"
  using oled_clear_column_unchecked
          [where column = 200 and page = 3 and s = "oled_position 10 3 oled_reset"
             and column_start = 0 and data = ramp]
  by (simp add: oled_position_valid)

section \<open>Properties of the software transport\<close>

lemma emit_simps [simp]:
  "trace (emit e hw) = trace hw @ [e]"
  "reads (emit e hw) = reads hw"
  "PINB (emit e hw) = PINB hw"
  "twi_soft_bus_status (emit e hw) = twi_soft_bus_status hw"
  by (simp_all add: emit_def)

lemma line_macro_simps [simp]:
  "trace (SCL_LOW hw) = trace hw @ [Scl_low]"
  "trace (SCL_HIGH hw) = trace hw @ [Scl_high]"
  "trace (SDA_LOW hw) = trace hw @ [Sda_low]"
  "trace (SDA_HIGH hw) = trace hw @ [Sda_high]"
  "trace (delay_us hw) = trace hw @ [Delay]"
  "reads (SCL_LOW hw) = reads hw" "reads (SCL_HIGH hw) = reads hw"
  "reads (SDA_LOW hw) = reads hw" "reads (SDA_HIGH hw) = reads hw"
  "reads (delay_us hw) = reads hw"
  "PINB (SCL_LOW hw) = PINB hw" "PINB (SCL_HIGH hw) = PINB hw"
  "PINB (SDA_LOW hw) = PINB hw" "PINB (SDA_HIGH hw) = PINB hw"
  "PINB (delay_us hw) = PINB hw"
  "twi_soft_bus_status (SCL_LOW hw) = twi_soft_bus_status hw"
  "twi_soft_bus_status (SCL_HIGH hw) = twi_soft_bus_status hw"
  "twi_soft_bus_status (SDA_LOW hw) = twi_soft_bus_status hw"
  "twi_soft_bus_status (SDA_HIGH hw) = twi_soft_bus_status hw"
  "twi_soft_bus_status (delay_us hw) = twi_soft_bus_status hw"
  by (simp_all add: SCL_LOW_def SCL_HIGH_def SDA_LOW_def SDA_HIGH_def delay_us_def)

lemma read_PIN_simps [simp]:
  "fst (read_PIN hw) = PINB hw (reads hw)"
  "trace (snd (read_PIN hw)) = trace hw @ [Sample (PINB hw (reads hw))]"
  "reads (snd (read_PIN hw)) = Suc (reads hw)"
  "PINB (snd (read_PIN hw)) = PINB hw"
  "twi_soft_bus_status (snd (read_PIN hw)) = twi_soft_bus_status hw"
  by (simp_all add: read_PIN_def Let_def)

lemma sent_bit:
  "i < 8 \<Longrightarrow> (push_bit i (uint (data :: 8 word)) AND 0x80 \<noteq> 0) = bit data (7 - i)"
proof -
  assume i: "i < 8"
  have "(push_bit i (uint data) AND (2 ^ 7 :: int) = 0) = (\<not> bit (push_bit i (uint data)) 7)"
    by (rule and_exp_eq_0_iff_not_bit)
  moreover have "bit (push_bit i (uint data)) 7 = bit data (7 - i)"
    using i by (auto simp add: bit_push_bit_iff bit_uint_iff)
  ultimately show ?thesis by simp
qed

lemma clock_stretching_result:
  "clock_stretching hw = Some hw' \<Longrightarrow>
   (\<exists>ws. trace hw' = trace hw @ map Sample ws)
   \<and> twi_soft_bus_status hw' = twi_soft_bus_status hw \<and> PINB hw' = PINB hw"
proof (induction hw hw' rule: clock_stretching.raw_induct [rotated 1, consumes 1])
  case (1 cs hw hw')
  show ?case
  proof (cases "bit (PINB hw (reads hw)) TWI_SOFT_SCL")
    case True
    with 1(2) have "hw' = snd (read_PIN hw)"
      by (simp add: read_PIN_def Let_def split: prod.splits)
    then have e: "hw' = snd (read_PIN hw)" .
    then have "trace hw' = trace hw @ map Sample [PINB hw (reads hw)]" by simp
    then have "\<exists>ws. trace hw' = trace hw @ map Sample ws" by blast
    with e show ?thesis by simp
  next
    case False
    with 1(2) have "cs (snd (read_PIN hw)) = Some hw'"
      by (simp add: read_PIN_def Let_def split: prod.splits)
    from 1(1) [OF this] obtain ws where
      t: "trace hw' = trace hw @ map Sample (PINB hw (reads hw) # ws)"
      and r: "twi_soft_bus_status hw' = twi_soft_bus_status hw \<and> PINB hw' = PINB hw"
      by auto
    from t have "\<exists>ws. trace hw' = trace hw @ map Sample ws" by blast
    with r show ?thesis by simp
  qed
qed

lemma twi_soft_set_from_end:
  "twi_soft_set_from data 8 hw = Some (twi_soft_set_ack hw)"
  by (subst twi_soft_set_from.simps) (simp add: CHAR_BIT_def)

lemma twi_soft_set_from_step:
  "i < 8 \<Longrightarrow> twi_soft_set_bit data i hw = Some (None, hw') \<Longrightarrow>
   twi_soft_set_from data i hw = twi_soft_set_from data (Suc i) hw'"
  by (subst twi_soft_set_from.simps) (simp add: CHAR_BIT_def)

lemma twi_soft_set_from_return:
  "i < 8 \<Longrightarrow> twi_soft_set_bit data i hw = Some (Some e, hw') \<Longrightarrow>
   twi_soft_set_from data i hw = Some (e, hw')"
  by (subst twi_soft_set_from.simps) (simp add: CHAR_BIT_def)

lemma twi_soft_set_from_hang:
  "i < 8 \<Longrightarrow> twi_soft_set_bit data i hw = None \<Longrightarrow> twi_soft_set_from data i hw = None"
  by (subst twi_soft_set_from.simps) (simp add: CHAR_BIT_def)

lemma bits_clocked_set:
  "bits_clocked data i hw = Some h \<Longrightarrow> i \<le> 8 \<Longrightarrow>
   twi_soft_set data hw = twi_soft_set_from data i h"
proof (induction i arbitrary: h)
  case 0
  then show ?case by (simp add: twi_soft_set_def)
next
  case (Suc i)
  from Suc.prems(1) obtain g where g: "bits_clocked data i hw = Some g"
    and b: "twi_soft_set_bit data i g = Some (None, h)"
    by (auto split: option.splits prod.splits)
  from Suc.prems(2) have "i < 8" by simp
  with Suc.IH [OF g] b show ?case
    by (simp add: twi_soft_set_from_step)
qed

lemma twi_soft_set_bit_one:
  assumes "i < 8" "bit data (7 - i)" "\<not> bit (PINB h (reads h)) TWI_SOFT_SDA"
  shows "twi_soft_set_bit data i h =
           Some (Some TWI_Arbitration, snd (read_PIN (delay_us (SDA_HIGH (SCL_LOW h)))))"
  using assms
  by (simp add: twi_soft_set_bit_def sent_bit arbitration_check_def Let_def split: prod.splits)
     (simp add: read_PIN_def Let_def)

lemma twi_soft_set_bit_zero:
  assumes "i < 8" "\<not> bit data (7 - i)"
  shows "twi_soft_set_bit data i h =
           (case clock_stretching (SCL_HIGH (delay_us (SDA_LOW (SCL_LOW h)))) of
              None \<Rightarrow> None | Some h' \<Rightarrow> Some (None, delay_us h'))"
  using assms
  by (simp add: twi_soft_set_bit_def sent_bit arbitration_check_def Let_def)

lemma bits_clocked_numeral:
  "bits_clocked data (numeral k) hw =
     (case bits_clocked data (pred_numeral k) hw of
        None \<Rightarrow> None
      | Some h \<Rightarrow>
          (case twi_soft_set_bit data (pred_numeral k) h of
             None \<Rightarrow> None
           | Some (Some e, h') \<Rightarrow> None
           | Some (None, h') \<Rightarrow> Some h'))"
  by (simp add: numeral_eq_Suc)

lemma twi_soft_set_ack_result:
  "fst (twi_soft_set_ack h) = (if bit (PINB h (reads h)) TWI_SOFT_SDA then TWI_Ack else TWI_None)"
  "trace (snd (twi_soft_set_ack h)) =
     trace h @ [Scl_low, Sda_high, Delay, Sample (PINB h (reads h)), Scl_high, Delay]"
  "twi_soft_bus_status (snd (twi_soft_set_ack h)) = twi_soft_bus_status h"
  by (simp_all add: twi_soft_set_ack_def Let_def read_PIN_def split: prod.splits)

lemma twi_soft_set_bit_return:
  "twi_soft_set_bit data i h = Some (Some e, g) \<Longrightarrow> e = TWI_Arbitration"
  by (auto simp add: twi_soft_set_bit_def Let_def split: prod.splits option.splits if_splits)

lemma twi_soft_set_from_completes:
  "twi_soft_set_from data i h = Some (e, g) \<Longrightarrow> e \<noteq> TWI_Arbitration \<Longrightarrow> i \<le> 8 \<Longrightarrow>
   bits_clocked data i hw = Some h \<Longrightarrow>
   \<exists>h8. bits_clocked data 8 hw = Some h8 \<and> twi_soft_set_ack h8 = (e, g)"
proof (induction "8 - i" arbitrary: i h)
  case 0
  then have "i = 8" by simp
  with 0 show ?case by (simp add: twi_soft_set_from_end)
next
  case (Suc n)
  then have i: "i < 8" by simp
  show ?case
  proof (cases "twi_soft_set_bit data i h")
    case None
    with i Suc.prems(1) show ?thesis by (simp add: twi_soft_set_from_hang)
  next
    case (Some r)
    obtain x k where r: "r = (x, k)" by (cases r)
    show ?thesis
    proof (cases x)
      case None
      with Some r have b: "twi_soft_set_bit data i h = Some (None, k)" by simp
      with i Suc.prems(1) have f: "twi_soft_set_from data (Suc i) k = Some (e, g)"
        by (simp add: twi_soft_set_from_step)
      from b Suc.prems(4) have c: "bits_clocked data (Suc i) hw = Some k" by simp
      from Suc.hyps(2) have n: "n = 8 - Suc i" by simp
      from i have "Suc i \<le> 8" by simp
      from Suc.hyps(1) [OF n f Suc.prems(2) this c] show ?thesis .
    next
      case (Some e')
      with \<open>twi_soft_set_bit data i h = Some r\<close> r
      have b: "twi_soft_set_bit data i h = Some (Some e', k)" by simp
      then have "e' = TWI_Arbitration" by (rule twi_soft_set_bit_return)
      with b i Suc.prems(1,2) show ?thesis by (simp add: twi_soft_set_from_return)
    qed
  qed
qed

lemma clocked_bits_samples [simp]:
  "clocked_bits b (map Sample ws @ es) = clocked_bits b es"
  by (induction ws) simp_all

lemma twi_soft_set_bit_continue:
  assumes "i < 8" "twi_soft_set_bit data i h = Some (None, g)"
  shows "\<exists>vs ws. trace g = trace h
           @ [Scl_low, if bit data (7 - i) then Sda_high else Sda_low, Delay]
           @ map Sample vs @ [Scl_high] @ map Sample ws @ [Delay]"
proof (cases "bit data (7 - i)")
  case True
  let ?k = "snd (read_PIN (delay_us (SDA_HIGH (SCL_LOW h))))"
  from assms True obtain k where k: "clock_stretching (SCL_HIGH ?k) = Some k" and g: "g = delay_us k"
    by (auto simp add: twi_soft_set_bit_def sent_bit arbitration_check_def Let_def read_PIN_def
          split: prod.splits if_splits option.splits)
  from clock_stretching_result [OF k] obtain ws where
    "trace k = trace h @ [Scl_low, Sda_high, Delay] @ map Sample [PINB h (reads h)]
               @ [Scl_high] @ map Sample ws"
    by auto
  with g True have "trace g = trace h
           @ [Scl_low, if bit data (7 - i) then Sda_high else Sda_low, Delay]
           @ map Sample [PINB h (reads h)] @ [Scl_high] @ map Sample ws @ [Delay]"
    by simp
  then show ?thesis by blast
next
  case False
  with assms obtain k where k: "clock_stretching (SCL_HIGH (delay_us (SDA_LOW (SCL_LOW h)))) = Some k"
    and g: "g = delay_us k"
    by (auto simp add: twi_soft_set_bit_zero split: option.splits)
  from clock_stretching_result [OF k] obtain ws where
    "trace k = trace h @ [Scl_low, Sda_low, Delay] @ map Sample [] @ [Scl_high] @ map Sample ws"
    by auto
  with g False have "trace g = trace h
           @ [Scl_low, if bit data (7 - i) then Sda_high else Sda_low, Delay]
           @ map Sample [] @ [Scl_high] @ map Sample ws @ [Delay]"
    by simp
  then show ?thesis by blast
qed

lemma clocked_bits_bit:
  "clocked_bits b ([Scl_low, if x then Sda_high else Sda_low, Delay]
           @ map Sample vs @ [Scl_high] @ map Sample ws @ [Delay] @ es) =
   x # clocked_bits x es"
  by simp

lemma twi_soft_set_from_bits:
  "twi_soft_set_from data i h = Some (e, g) \<Longrightarrow> e \<noteq> TWI_Arbitration \<Longrightarrow> i \<le> 8 \<Longrightarrow>
   \<exists>evs. trace g = trace h @ evs
        \<and> (\<forall>b. clocked_bits b evs = map (\<lambda>k. bit data (7 - k)) [i..<8] @ [True])"
proof (induction "8 - i" arbitrary: i h)
  case 0
  then have i: "i = 8" by simp
  with 0 have "twi_soft_set_ack h = (e, g)" by (simp add: twi_soft_set_from_end)
  then have "g = snd (twi_soft_set_ack h)" by simp
  then have "trace g = trace h @ [Scl_low, Sda_high, Delay, Sample (PINB h (reads h)), Scl_high, Delay]"
    by (simp add: twi_soft_set_ack_result)
  moreover have "\<forall>b. clocked_bits b [Scl_low, Sda_high, Delay, Sample (PINB h (reads h)), Scl_high, Delay]
      = map (\<lambda>k. bit data (7 - k)) [i..<8] @ [True]"
    using i by simp
  ultimately show ?case by blast
next
  case (Suc n)
  then have i: "i < 8" by simp
  show ?case
  proof (cases "twi_soft_set_bit data i h")
    case None
    with i Suc.prems(1) show ?thesis by (simp add: twi_soft_set_from_hang)
  next
    case (Some r)
    obtain x k where r: "r = (x, k)" by (cases r)
    show ?thesis
    proof (cases x)
      case None
      with Some r have c: "twi_soft_set_bit data i h = Some (None, k)" by simp
      with i Suc.prems(1) have f: "twi_soft_set_from data (Suc i) k = Some (e, g)"
        by (simp add: twi_soft_set_from_step)
      from Suc.hyps(2) have n: "n = 8 - Suc i" by simp
      from i have "Suc i \<le> 8" by simp
      from Suc.hyps(1) [OF n f Suc.prems(2) this] obtain evs where
        evs: "trace g = trace k @ evs"
        and bits: "\<forall>b. clocked_bits b evs = map (\<lambda>k. bit data (7 - k)) [Suc i..<8] @ [True]"
        by blast
      from twi_soft_set_bit_continue [OF i c] obtain vs ws where
        tk: "trace k = trace h
           @ [Scl_low, if bit data (7 - i) then Sda_high else Sda_low, Delay]
           @ map Sample vs @ [Scl_high] @ map Sample ws @ [Delay]"
        by blast
      let ?pre = "[Scl_low, if bit data (7 - i) then Sda_high else Sda_low, Delay]
           @ map Sample vs @ [Scl_high] @ map Sample ws @ [Delay]"
      from evs tk have t: "trace g = trace h @ (?pre @ evs)" by simp
      have u: "[i..<8] = i # [Suc i..<8]" using i by (simp add: upt_conv_Cons)
      have "\<forall>b. clocked_bits b (?pre @ evs) = map (\<lambda>k. bit data (7 - k)) [i..<8] @ [True]"
        unfolding u using bits clocked_bits_bit [of _ "bit data (7 - i)" vs ws evs]
        by (simp del: upt_Suc)
      with t show ?thesis by blast
    next
      case (Some e')
      with \<open>twi_soft_set_bit data i h = Some r\<close> r
      have c: "twi_soft_set_bit data i h = Some (Some e', k)" by simp
      then have "e' = TWI_Arbitration" by (rule twi_soft_set_bit_return)
      with c i Suc.prems(1,2) show ?thesis by (simp add: twi_soft_set_from_return)
    qed
  qed
qed

lemma twi_soft_set_bits:
  assumes "twi_soft_set data hw = Some (e, hw')" "e \<noteq> TWI_Arbitration"
  shows "clocked_bits b (drop (length (trace hw)) (trace hw')) = byte_bits data @ [True]"
proof -
  from assms have "twi_soft_set_from data 0 hw = Some (e, hw')"
    by (simp add: twi_soft_set_def)
  from twi_soft_set_from_bits [OF this assms(2)] obtain evs where
    "trace hw' = trace hw @ evs"
    "\<forall>b. clocked_bits b evs = map (\<lambda>k. bit data (7 - k)) [0..<8] @ [True]"
    by auto
  then show ?thesis by (simp add: byte_bits_def del: upt_Suc)
qed

lemma address_byte_value:
  "unat address < 128 \<Longrightarrow>
   unat (push_bit 1 address OR (1 AND TWI_Operation_value operation) :: 8 word) =
     2 * unat address + unat (TWI_Operation_value operation)"
proof -
  assume a: "unat address < 128"
  then have m: "unat (address * 2) = 2 * unat address"
    by (simp add: unat_word_ariths)
  show ?thesis
  proof (cases operation)
    case TWI_Write
    with m show ?thesis by simp
  next
    case TWI_Read
    have "address * 2 OR 1 = address * 2 + 1"
      by (simp add: or_one_eq)
    moreover have "unat (address * 2 + 1) = 2 * unat address + 1"
      using a m by (simp add: unat_word_ariths)
    ultimately show ?thesis using TWI_Read by simp
  qed
qed



lemma emit_eval:
  "emit e \<lparr>PORTB = p, DDRB = d, twi_soft_bus_status = st, PINB = f, reads = r, trace = t,
           levels = l\<rparr> =
     \<lparr>PORTB = p, DDRB = d, twi_soft_bus_status = st, PINB = f, reads = r, trace = t @ [e],
      levels = l @ [(\<not> bit d 0 \<or> bit p 0, \<not> bit d 1 \<or> bit p 1)]\<rparr>"
  by (simp add: emit_def pin_level_def TWI_SOFT_SCL_def TWI_SOFT_SDA_def)

lemma line_macro_eval:
  "SCL_LOW \<lparr>PORTB = p, DDRB = d, twi_soft_bus_status = st, PINB = f, reads = r, trace = t,
            levels = l\<rparr> =
     emit Scl_low \<lparr>PORTB = p AND NOT 1, DDRB = d OR 1, twi_soft_bus_status = st, PINB = f,
                   reads = r, trace = t, levels = l\<rparr>"
  "SDA_LOW \<lparr>PORTB = p, DDRB = d, twi_soft_bus_status = st, PINB = f, reads = r, trace = t,
            levels = l\<rparr> =
     emit Sda_low \<lparr>PORTB = p AND NOT 1, DDRB = d OR 2, twi_soft_bus_status = st, PINB = f,
                   reads = r, trace = t, levels = l\<rparr>"
  "SDA_HIGH \<lparr>PORTB = p, DDRB = d, twi_soft_bus_status = st, PINB = f, reads = r, trace = t,
             levels = l\<rparr> =
     emit Sda_high \<lparr>PORTB = p AND NOT 1, DDRB = d AND NOT 2, twi_soft_bus_status = st, PINB = f,
                    reads = r, trace = t, levels = l\<rparr>"
  "SCL_HIGH \<lparr>PORTB = p, DDRB = d, twi_soft_bus_status = st, PINB = f, reads = r, trace = t,
             levels = l\<rparr> =
     emit Scl_high \<lparr>PORTB = p AND NOT 1, DDRB = d AND NOT 1, twi_soft_bus_status = st, PINB = f,
                    reads = r, trace = t, levels = l\<rparr>"
  "delay_us \<lparr>PORTB = p, DDRB = d, twi_soft_bus_status = st, PINB = f, reads = r, trace = t,
             levels = l\<rparr> =
     emit Delay \<lparr>PORTB = p, DDRB = d, twi_soft_bus_status = st, PINB = f, reads = r, trace = t,
                 levels = l\<rparr>"
  by (simp_all add: SCL_LOW_def SDA_LOW_def SDA_HIGH_def SCL_HIGH_def delay_us_def
        TWI_SOFT_SCL_def TWI_SOFT_SDA_def)

lemma read_PIN_eval:
  "read_PIN \<lparr>PORTB = p, DDRB = d, twi_soft_bus_status = st, PINB = f, reads = r, trace = t,
             levels = l\<rparr> =
     (f r, emit (Sample (f r)) \<lparr>PORTB = p, DDRB = d, twi_soft_bus_status = st, PINB = f,
                                 reads = Suc r, trace = t, levels = l\<rparr>)"
  by (simp add: read_PIN_def Let_def)

lemma pin_bits [simp]:
  "bit (DDRB (SCL_LOW hw)) TWI_SOFT_SCL" "bit (DDRB (SCL_LOW hw)) TWI_SOFT_SDA = bit (DDRB hw) TWI_SOFT_SDA"
  "\<not> bit (PORTB (SCL_LOW hw)) TWI_SOFT_SCL" "bit (PORTB (SCL_LOW hw)) TWI_SOFT_SDA = bit (PORTB hw) TWI_SOFT_SDA"
  "\<not> bit (DDRB (SCL_HIGH hw)) TWI_SOFT_SCL" "bit (DDRB (SCL_HIGH hw)) TWI_SOFT_SDA = bit (DDRB hw) TWI_SOFT_SDA"
  "\<not> bit (PORTB (SCL_HIGH hw)) TWI_SOFT_SCL" "bit (PORTB (SCL_HIGH hw)) TWI_SOFT_SDA = bit (PORTB hw) TWI_SOFT_SDA"
  "bit (DDRB (SDA_LOW hw)) TWI_SOFT_SCL = bit (DDRB hw) TWI_SOFT_SCL" "bit (DDRB (SDA_LOW hw)) TWI_SOFT_SDA"
  "\<not> bit (PORTB (SDA_LOW hw)) TWI_SOFT_SCL" "bit (PORTB (SDA_LOW hw)) TWI_SOFT_SDA = bit (PORTB hw) TWI_SOFT_SDA"
  "bit (DDRB (SDA_HIGH hw)) TWI_SOFT_SCL = bit (DDRB hw) TWI_SOFT_SCL" "\<not> bit (DDRB (SDA_HIGH hw)) TWI_SOFT_SDA"
  "\<not> bit (PORTB (SDA_HIGH hw)) TWI_SOFT_SCL" "bit (PORTB (SDA_HIGH hw)) TWI_SOFT_SDA = bit (PORTB hw) TWI_SOFT_SDA"
  "DDRB (delay_us hw) = DDRB hw" "PORTB (delay_us hw) = PORTB hw"
  "DDRB (snd (read_PIN hw)) = DDRB hw" "PORTB (snd (read_PIN hw)) = PORTB hw"
  by (simp_all add: SCL_LOW_def SCL_HIGH_def SDA_LOW_def SDA_HIGH_def delay_us_def read_PIN_def
        emit_def Let_def TWI_SOFT_SCL_def TWI_SOFT_SDA_def bit_simps)

lemma levels_simps [simp]:
  "levels (SCL_LOW hw) = levels hw @ [(False, pin_level hw TWI_SOFT_SDA)]"
  "levels (SCL_HIGH hw) = levels hw @ [(True, pin_level hw TWI_SOFT_SDA)]"
  "levels (SDA_LOW hw) =
     levels hw @ [(\<not> bit (DDRB hw) TWI_SOFT_SCL, bit (PORTB hw) TWI_SOFT_SDA)]"
  "levels (SDA_HIGH hw) = levels hw @ [(\<not> bit (DDRB hw) TWI_SOFT_SCL, True)]"
  "levels (delay_us hw) = levels hw @ [(pin_level hw TWI_SOFT_SCL, pin_level hw TWI_SOFT_SDA)]"
  by (simp_all add: SCL_LOW_def SCL_HIGH_def SDA_LOW_def SDA_HIGH_def delay_us_def
        emit_def pin_level_def TWI_SOFT_SCL_def TWI_SOFT_SDA_def bit_simps)

lemma status_update_simps [simp]:
  "DDRB (hw\<lparr>twi_soft_bus_status := x\<rparr>) = DDRB hw"
  "PORTB (hw\<lparr>twi_soft_bus_status := x\<rparr>) = PORTB hw"
  "levels (hw\<lparr>twi_soft_bus_status := x\<rparr>) = levels hw"
  by simp_all









lemmas twi_eval = twi_soft_set_def twi_soft_set_from.simps twi_soft_set_bit_def
  twi_soft_set_ack_def arbitration_check_def clock_stretching.simps emit_eval line_macro_eval
  read_PIN_eval avr_reset_def peer_ack_def peer_idle_def peer_ack_at_def CHAR_BIT_def
  TWI_SOFT_SCL_def TWI_SOFT_SDA_def TWI_SOFT_STATUS_TRANSMIT_def twi_soft_address_def
  twi_soft_start_def twi_soft_stop_def Let_def

text \<open>
  Claim C4 as stated fails. Sending \<open>0x00\<close> to a peer that acknowledges returns
  \<^verbatim>\<open>TWI_None\<close>, and the acknowledge phase (the events after the 48 of the eight
  bits) is: clock low, data released, wait, sample, clock released, wait. The data line is sampled while the clock is still driven low,
  before the clock is released, and the input register is not read after the release;
  this is not the order the claim gives.
\<close>

theorem acknowledge_sampled_with_clock_low_counterexample:
  "map_option fst (twi_soft_set 0x00 (avr_reset peer_ack)) = Some TWI_None
   \<and> map_option (drop 48 \<circ> trace \<circ> snd) (twi_soft_set 0x00 (avr_reset peer_ack)) =
       Some [Scl_low, Sda_high, Delay, Sample 1, Scl_high, Delay]
   \<and> map_option (acknowledge_order_claimed \<circ> drop 48 \<circ> trace \<circ> snd)
        (twi_soft_set 0x00 (avr_reset peer_ack)) = Some False"
  by (simp add: twi_eval)

text \<open>
  Claim C4, amended. When all 8 bits are out, \<^verbatim>\<open>twi_soft_set\<close> drives the clock low,
  releases the data line, waits, samples the data line, then releases the clock and
  waits, and returns, without a wait for clock stretching in this phase. A low sample
  gives \<^verbatim>\<open>TWI_None\<close>, a high sample \<^verbatim>\<open>TWI_Ack\<close>. Every return of \<^verbatim>\<open>twi_soft_set\<close>
  with a status other than \<^verbatim>\<open>TWI_Arbitration\<close> is the return of this phase, so no bit
  is transferred after it.
\<close>

theorem acknowledge_phase:
  "(bits_clocked data 8 hw = Some h \<longrightarrow> twi_soft_set data hw = Some (twi_soft_set_ack h))
   \<and> fst (twi_soft_set_ack h) =
       (if bit (PINB h (reads h)) TWI_SOFT_SDA then TWI_Ack else TWI_None)
   \<and> trace (snd (twi_soft_set_ack h)) =
       trace h @ [Scl_low, Sda_high, Delay, Sample (PINB h (reads h)), Scl_high, Delay]
   \<and> (twi_soft_set data hw = Some (e, hw') \<and> e \<noteq> TWI_Arbitration \<longrightarrow>
        (\<exists>h8. bits_clocked data 8 hw = Some h8 \<and> twi_soft_set_ack h8 = (e, hw')))"
proof -
  have a: "bits_clocked data 8 hw = Some h \<longrightarrow> twi_soft_set data hw = Some (twi_soft_set_ack h)"
    by (simp add: bits_clocked_set twi_soft_set_from_end)
  have d: "twi_soft_set data hw = Some (e, hw') \<and> e \<noteq> TWI_Arbitration \<longrightarrow>
        (\<exists>h8. bits_clocked data 8 hw = Some h8 \<and> twi_soft_set_ack h8 = (e, hw'))"
  proof
    assume p: "twi_soft_set data hw = Some (e, hw') \<and> e \<noteq> TWI_Arbitration"
    then have "twi_soft_set_from data 0 hw = Some (e, hw')" by (simp add: twi_soft_set_def)
    from twi_soft_set_from_completes [OF this, of hw] p
    show "\<exists>h8. bits_clocked data 8 hw = Some h8 \<and> twi_soft_set_ack h8 = (e, hw')" by simp
  qed
  from a d show ?thesis by (simp add: twi_soft_set_ack_result)
qed

text \<open>Witness for the amended C4: the byte \<open>0x00\<close> sent to a peer that acknowledges.\<close>

theorem acknowledge_phase_witness:
  "bits_clocked 0x00 8 (avr_reset peer_ack) \<noteq> None
   \<and> map_option fst (twi_soft_set 0x00 (avr_reset peer_ack)) = Some TWI_None
   \<and> TWI_None \<noteq> TWI_Arbitration
   \<and> twi_soft_set 0x00 (avr_reset peer_ack) =
       map_option twi_soft_set_ack (bits_clocked 0x00 8 (avr_reset peer_ack))"
  using acknowledge_phase
          [where data = "0x00" and hw = "avr_reset peer_ack"
             and h = "the (bits_clocked 0x00 8 (avr_reset peer_ack))"
             and e = TWI_None and hw' = "snd (the (twi_soft_set 0x00 (avr_reset peer_ack)))"]
  by (simp add: twi_eval bits_clocked_numeral)

text \<open>
  Claim C5. If the loop of \<^verbatim>\<open>twi_soft_set(data)\<close> begins the iteration for bit position
  \<open>i\<close> (0-based, most significant first) in state \<open>h\<close>, the bit is 1, and the data line
  reads low at the arbitration check, then the call returns \<^verbatim>\<open>TWI_Arbitration\<close> right
  after that read: clock low, data released, wait, sample, and nothing else, neither the
  remaining bits nor the acknowledge phase. When the bit is 0 the iteration reads the
  input register only after releasing the clock, and cannot end the call.
\<close>

theorem arbitration_lost_aborts:
  "(i < 8 \<and> bits_clocked data i hw = Some h \<and> bit data (7 - i)
      \<and> \<not> bit (PINB h (reads h)) TWI_SOFT_SDA \<longrightarrow>
      (\<exists>h'. twi_soft_set data hw = Some (TWI_Arbitration, h')
            \<and> trace h' = trace h @ [Scl_low, Sda_high, Delay, Sample (PINB h (reads h))]
            \<and> reads h' = Suc (reads h)))
   \<and> (i < 8 \<and> \<not> bit data (7 - i) \<and> twi_soft_set_bit data i h = Some (r, g) \<longrightarrow>
        r = None
        \<and> (\<exists>ws. trace g = trace h @ [Scl_low, Sda_low, Delay, Scl_high] @ map Sample ws @ [Delay]))"
proof (intro conjI impI)
  assume a: "i < 8 \<and> bits_clocked data i hw = Some h \<and> bit data (7 - i)
      \<and> \<not> bit (PINB h (reads h)) TWI_SOFT_SDA"
  let ?h' = "snd (read_PIN (delay_us (SDA_HIGH (SCL_LOW h))))"
  from a have "twi_soft_set data hw = twi_soft_set_from data i h"
    by (simp add: bits_clocked_set)
  also from a have "\<dots> = Some (TWI_Arbitration, ?h')"
    by (simp add: twi_soft_set_from_return twi_soft_set_bit_one)
  finally have "twi_soft_set data hw = Some (TWI_Arbitration, ?h')" .
  moreover have "trace ?h' = trace h @ [Scl_low, Sda_high, Delay, Sample (PINB h (reads h))]"
    by simp
  moreover have "reads ?h' = Suc (reads h)" by simp
  ultimately show "\<exists>h'. twi_soft_set data hw = Some (TWI_Arbitration, h')
            \<and> trace h' = trace h @ [Scl_low, Sda_high, Delay, Sample (PINB h (reads h))]
            \<and> reads h' = Suc (reads h)"
    by blast
next
  assume b: "i < 8 \<and> \<not> bit data (7 - i) \<and> twi_soft_set_bit data i h = Some (r, g)"
  then obtain k where k: "clock_stretching (SCL_HIGH (delay_us (SDA_LOW (SCL_LOW h)))) = Some k"
    and r: "r = None" and g: "g = delay_us k"
    by (auto simp add: twi_soft_set_bit_zero split: option.splits)
  from clock_stretching_result [OF k] obtain ws where
    "trace k = trace h @ [Scl_low, Sda_low, Delay, Scl_high] @ map Sample ws"
    by auto
  with g have "trace g = trace h @ [Scl_low, Sda_low, Delay, Scl_high] @ map Sample ws @ [Delay]"
    by simp
  then show "\<exists>ws. trace g = trace h @ [Scl_low, Sda_low, Delay, Scl_high] @ map Sample ws @ [Delay]"
    by blast
  from r show "r = None" .
qed

text \<open>Witness for C5: the byte \<open>0x10\<close>, whose 1 bit is at position 3, against a peer that
  holds the data line low.\<close>

theorem arbitration_lost_aborts_witness:
  "(3 :: nat) < 8 \<and> bit (0x10 :: 8 word) (7 - 3)
   \<and> bits_clocked 0x10 3 (avr_reset peer_ack) \<noteq> None
   \<and> map_option fst (twi_soft_set 0x10 (avr_reset peer_ack)) = Some TWI_Arbitration
   \<and> map_option (trace \<circ> snd) (twi_soft_set 0x10 (avr_reset peer_ack)) =
       Some [Scl_low, Sda_low, Delay, Scl_high, Sample 1, Delay,
             Scl_low, Sda_low, Delay, Scl_high, Sample 1, Delay,
             Scl_low, Sda_low, Delay, Scl_high, Sample 1, Delay,
             Scl_low, Sda_high, Delay, Sample 1]
   \<and> \<not> bit (0x10 :: 8 word) (7 - 0)
   \<and> map_option fst (twi_soft_set_bit 0x10 0 (avr_reset peer_ack)) = Some None"
  using arbitration_lost_aborts
          [where data = "0x10" and i = 3 and hw = "avr_reset peer_ack"
             and h = "the (bits_clocked 0x10 3 (avr_reset peer_ack))"]
        arbitration_lost_aborts
          [where data = "0x10" and i = 0 and h = "avr_reset peer_ack"
             and r = "fst (the (twi_soft_set_bit 0x10 0 (avr_reset peer_ack)))"
             and g = "snd (the (twi_soft_set_bit 0x10 0 (avr_reset peer_ack)))"]
  by (simp add: twi_eval bits_clocked_numeral)

text \<open>
  Claim C8. \<^verbatim>\<open>twi_soft_address(address, operation)\<close> is \<^verbatim>\<open>twi_soft_set\<close> of the byte
  \<open>(address << 1) | (operation & 1)\<close>, result and status included; address \<open>0x3C\<close> with
  Write gives the byte \<open>0x78\<close>. For a 7-bit address the value of the byte is twice the
  address plus the direction bit. Unless arbitration is lost, the data line carries the
  eight bits of that byte, most significant first, at the eight clock pulses, and is
  released at the ninth.
\<close>

theorem twi_soft_address_byte:
  "twi_soft_address address operation hw =
     twi_soft_set (push_bit 1 address OR (1 AND TWI_Operation_value operation)) hw
   \<and> twi_soft_address 0x3C TWI_Write hw = twi_soft_set 0x78 hw
   \<and> (unat address < 128 \<longrightarrow>
        unat (push_bit 1 address OR (1 AND TWI_Operation_value operation)) =
          2 * unat address + unat (TWI_Operation_value operation))
   \<and> (twi_soft_address address operation hw = Some (e, hw') \<and> e \<noteq> TWI_Arbitration \<longrightarrow>
        clocked_bits b (drop (length (trace hw)) (trace hw')) =
          byte_bits (push_bit 1 address OR (1 AND TWI_Operation_value operation)) @ [True])"
proof -
  have 1: "twi_soft_address address operation hw =
     twi_soft_set (push_bit 1 address OR (1 AND TWI_Operation_value operation)) hw"
    by (simp add: twi_soft_address_def Let_def)
  have 2: "twi_soft_address 0x3C TWI_Write hw = twi_soft_set 0x78 hw"
    by (simp add: twi_soft_address_def Let_def)
  have 3: "unat address < 128 \<longrightarrow>
        unat (push_bit 1 address OR (1 AND TWI_Operation_value operation)) =
          2 * unat address + unat (TWI_Operation_value operation)"
    by (blast intro: address_byte_value)
  have 4: "twi_soft_address address operation hw = Some (e, hw') \<and> e \<noteq> TWI_Arbitration \<longrightarrow>
        clocked_bits b (drop (length (trace hw)) (trace hw')) =
          byte_bits (push_bit 1 address OR (1 AND TWI_Operation_value operation)) @ [True]"
    unfolding 1 by (blast intro: twi_soft_set_bits)
  from 1 2 3 4 show ?thesis by blast
qed

text \<open>Witness for C8: address \<open>0x3C\<close>, Write, a peer that acknowledges at the ninth
  clock pulse (the thirteenth read of the input register).\<close>

theorem twi_soft_address_byte_witness:
  "unat (0x3C :: 8 word) < 128
   \<and> unat (push_bit 1 0x3C OR (1 AND TWI_Operation_value TWI_Write) :: 8 word) = 0x78
   \<and> map_option fst (twi_soft_address 0x3C TWI_Write (avr_reset (peer_ack_at 12))) = Some TWI_None
   \<and> TWI_None \<noteq> TWI_Arbitration
   \<and> map_option (clocked_bits False \<circ> trace \<circ> snd)
        (twi_soft_address 0x3C TWI_Write (avr_reset (peer_ack_at 12))) =
       Some [False, True, True, True, True, False, False, False, True]"
  using twi_soft_address_byte
          [where address = "0x3C" and operation = TWI_Write
             and hw = "avr_reset (peer_ack_at 12)" and e = TWI_None
             and hw' = "snd (the (twi_soft_address 0x3C TWI_Write (avr_reset (peer_ack_at 12))))"
             and b = False]
  by (simp add: twi_eval byte_bits_def)




end
